theory Spec2Isabelle
  imports Main "HOL-Library.Word"
begin

unbundle bit_operations_syntax

section \<open>Go standard library functions used by the watcher and the managers\<close>

text \<open>
  Strings are byte lists. The functions below follow the Go standard library on a
  Unix system (path separator \<open>/\<close>): \<open>strings.HasPrefix\<close>, \<open>strings.HasSuffix\<close>,
  \<open>strings.Contains\<close>, \<open>strings.Fields\<close> (ASCII white space), \<open>strings.Replace\<close>,
  \<open>filepath.Base\<close> and \<open>filepath.Ext\<close>.
\<close>

definition HasPrefix :: "string \<Rightarrow> string \<Rightarrow> bool" where
  "HasPrefix s prefix = (length prefix \<le> length s \<and> take (length prefix) s = prefix)"

definition HasSuffix :: "string \<Rightarrow> string \<Rightarrow> bool" where
  "HasSuffix s suffix =
     (length suffix \<le> length s \<and> drop (length s - length suffix) s = suffix)"

fun Contains :: "string \<Rightarrow> string \<Rightarrow> bool" where
  "Contains [] substr = (substr = [])"
| "Contains (c # cs) substr = (HasPrefix (c # cs) substr \<or> Contains cs substr)"

definition isSpace :: "char \<Rightarrow> bool" where
  "isSpace c = (c = CHR '' '' \<or> c = CHR 0x09 \<or> c = CHR 0x0A \<or> c = CHR 0x0B
                \<or> c = CHR 0x0C \<or> c = CHR 0x0D)"

text \<open>\<open>fields_from cur s\<close>: \<open>cur\<close> is the field being read, reversed.\<close>

fun fields_from :: "string \<Rightarrow> string \<Rightarrow> string list" where
  "fields_from cur [] = (if cur = [] then [] else [rev cur])"
| "fields_from cur (c # cs) =
     (if isSpace c then (if cur = [] then fields_from [] cs else rev cur # fields_from [] cs)
      else fields_from (c # cur) cs)"

definition Fields :: "string \<Rightarrow> string list" where
  "Fields s = fields_from [] s"

text \<open>
  \<open>strings.Replace(s, old, new, n)\<close> for a non-empty \<open>old\<close>: the first \<open>n\<close>
  non-overlapping occurrences from the left; \<open>n = None\<close> is \<open>ReplaceAll\<close>.
\<close>

fun Replace :: "string \<Rightarrow> string \<Rightarrow> string \<Rightarrow> nat option \<Rightarrow> string" where
  "Replace [] old new n = []"
| "Replace (c # cs) old new n =
     (if n = Some 0 \<or> old = [] then c # cs
      else if HasPrefix (c # cs) old
        then new @ Replace (drop (length old) (c # cs)) old new (map_option (\<lambda>k. k - 1) n)
        else c # Replace cs old new n)"

definition ReplaceAll :: "string \<Rightarrow> string \<Rightarrow> string \<Rightarrow> string" where
  "ReplaceAll s old new = Replace s old new None"

definition isPathSeparator :: "char \<Rightarrow> bool" where
  "isPathSeparator c = (c = CHR ''/'')"

text \<open>
  \<open>filepath.Base\<close>: the last element of the path, after removing trailing
  separators; \<open>.\<close> for the empty path and \<open>/\<close> for a path of separators only.
\<close>

definition Base :: "string \<Rightarrow> string" where
  "Base path =
     (if path = [] then ''.''
      else let stripped = rev (dropWhile isPathSeparator (rev path));
               elem = rev (takeWhile (\<lambda>c. \<not> isPathSeparator c) (rev stripped))
           in if elem = [] then ''/'' else elem)"

text \<open>
  \<open>filepath.Ext\<close> scans the path backwards up to the last separator and returns the
  suffix that starts at the first dot it meets. \<open>ext_scan\<close> reads the reversed path,
  \<open>acc\<close> holding what has been passed.
\<close>

fun ext_scan :: "string \<Rightarrow> string \<Rightarrow> string" where
  "ext_scan [] acc = []"
| "ext_scan (c # cs) acc =
     (if isPathSeparator c then []
      else if c = CHR ''.'' then c # acc
      else ext_scan cs (c # acc))"

definition Ext :: "string \<Rightarrow> string" where
  "Ext path = ext_scan (rev path) []"

section \<open>The debounced directory watcher (internal/watcher/watcher.go)\<close>

subsection \<open>Data\<close>

text \<open>
  \<open>fsnotify.Event\<close>: a path and a bit mask of operations (\<open>fsnotify.Op\<close> is a
  \<open>uint32\<close>, the operations are \<open>1 << iota\<close>).
\<close>

type_synonym Op = "32 word"

definition Create :: Op where "Create = 1"
definition Write :: Op where "Write = 2"
definition Remove :: Op where "Remove = 4"
definition Rename :: Op where "Rename = 8"
definition Chmod :: Op where "Chmod = 16"

record Event =
  Name :: string
  Op :: Op

text \<open>
  A compiled regular expression is the predicate \<open>MatchString\<close> computes. The
  \<open>Events\<close> channel (capacity 1) is the number of signals it holds, the \<open>Errors\<close>
  channel (capacity 10) the list it holds, and the fsnotify handle the list of paths
  added to it; the closing of \<open>done\<close> is an input of the loop below. Durations and
  instants are integers in one time unit.
\<close>

type_synonym Regexp = "string \<Rightarrow> bool"

record Watcher =
  watcher :: "string list"
  debounceTime :: int
  ignoreDirs :: "string list"
  excludeDirs :: "string list"
  excludeFiles :: "string list"
  excludeRegex :: "Regexp list"
  followSymlink :: bool
  Events :: nat
  Errors :: "string list"

text \<open>
  What the watcher asks of its environment: \<open>filepath.Match\<close> (a pattern and a name; a
  malformed pattern does not match, the error being dropped by the caller),
  \<open>regexp.Compile\<close>, and \<open>os.Stat\<close> telling whether a path is a directory.
\<close>

record WatchEnv =
  Match :: "string \<Rightarrow> string \<Rightarrow> bool"
  Compile :: "string \<Rightarrow> Regexp option"
  IsDir :: "string \<Rightarrow> bool"

definition New :: "int \<Rightarrow> Watcher" where
  "New d =
     \<lparr> watcher = [], debounceTime = d,
       ignoreDirs = [''tmp'', ''.tmp'', ''vendor'', ''.git'', ''.idea'', ''.vscode'',
                     ''node_modules'', ''dist'', ''build'', ''.next'', ''.nuxt''],
       excludeDirs = [], excludeFiles = [], excludeRegex = [], followSymlink = False,
       Events = 0, Errors = [] \<rparr>"

datatype watch_error = InvalidPattern string | WalkFailed string string

text \<open>
  \<open>SetExcludes\<close> stores the directories and file patterns first; a pattern that does
  not compile ends the call with the expressions compiled so far kept.
\<close>

fun compileAll :: "WatchEnv \<Rightarrow> string list \<Rightarrow> Watcher \<Rightarrow> watch_error option \<times> Watcher" where
  "compileAll env [] w = (None, w)"
| "compileAll env (pattern # ps) w =
     (case Compile env pattern of
        None \<Rightarrow> (Some (InvalidPattern pattern), w)
      | Some re \<Rightarrow> compileAll env ps (w\<lparr>excludeRegex := excludeRegex w @ [re]\<rparr>))"

definition SetExcludes ::
  "WatchEnv \<Rightarrow> string list \<Rightarrow> string list \<Rightarrow> string list \<Rightarrow> Watcher
     \<Rightarrow> watch_error option \<times> Watcher" where
  "SetExcludes env dirs files regexPatterns w =
     compileAll env regexPatterns
       (w\<lparr>excludeDirs := excludeDirs w @ dirs, excludeFiles := files\<rparr>)"

definition SetFollowSymlink :: "bool \<Rightarrow> Watcher \<Rightarrow> Watcher" where
  "SetFollowSymlink follow w = w\<lparr>followSymlink := follow\<rparr>"

subsection \<open>Ignore and skip rules\<close>

definition shouldIgnore :: "Watcher \<Rightarrow> string \<Rightarrow> bool" where
  "shouldIgnore w path =
     (let base = Base path in
      if HasPrefix base ''.'' \<and> base \<noteq> ''.'' \<and> base \<noteq> ''..'' then True
      else if list_ex (\<lambda>ignored. base = ignored) (ignoreDirs w) then True
      else if list_ex (\<lambda>excluded. base = excluded \<or> Contains path (''/'' @ excluded @ ''/''))
                (excludeDirs w) then True
      else if list_ex (\<lambda>re. re path) (excludeRegex w) then True
      else False)"

definition shouldSkipEvent :: "WatchEnv \<Rightarrow> Watcher \<Rightarrow> Event \<Rightarrow> bool" where
  "shouldSkipEvent env w event =
     (if Op event = Chmod then True
      else let base = Base (Name event); ext = Ext (Name event) in
        if HasSuffix base ''~'' \<or> HasPrefix base ''.#'' then True
        else if ext = ''.swp'' \<or> ext = ''.swo'' \<or> ext = ''.swx'' then True
        else if Contains (Name event) ''test.test'' then True
        else if list_ex (\<lambda>excluded. Match env excluded base) (excludeFiles w) then True
        else if list_ex (\<lambda>re. re (Name event)) (excludeRegex w) then True
        else False)"

subsection \<open>Registering directories: \<open>Watch\<close> over \<open>filepath.Walk\<close>\<close>

text \<open>
  The directory tree under the watched root, as \<open>filepath.Walk\<close> sees it.
  \<open>Walk\<close> reads every entry with \<open>os.Lstat\<close>, so a symbolic link is an entry
  that is not a directory, whatever it points to; the entries of a directory come in
  lexical order. \<open>LstatError\<close> is an entry \<open>Lstat\<close> fails on, \<open>UnreadableDir\<close> a
  directory whose names cannot be read.
\<close>

datatype fnode =
    File
  | Symlink string
  | Dir "(string \<times> fnode) list"
  | UnreadableDir
  | LstatError

datatype walk_result = WalkNil | SkipDir | WalkErr string

text \<open>
  \<open>filepath.Join\<close> of a clean path and a plain name (it also cleans its result, which
  changes nothing for such arguments).
\<close>

definition Join :: "string \<Rightarrow> string \<Rightarrow> string" where
  "Join path name = (if HasSuffix path ''/'' then path @ name else path @ ''/'' @ name)"

text \<open>
  \<open>walk\<close> is \<open>filepath.walk\<close> with the callback of \<open>Watch\<close> written in: an
  error is returned as it is, an ignored directory answers \<open>SkipDir\<close>, any other
  directory is added to the fsnotify handle (\<open>acc\<close>; a failure to add is only
  logged) and descended into.
\<close>

fun walk :: "Watcher \<Rightarrow> string \<Rightarrow> fnode \<Rightarrow> string list \<Rightarrow> walk_result \<times> string list"
  and walk_names ::
    "Watcher \<Rightarrow> string \<Rightarrow> (string \<times> fnode) list \<Rightarrow> string list \<Rightarrow> walk_result \<times> string list"
  where
  "walk w path File acc = (WalkNil, acc)"
| "walk w path (Symlink target) acc = (WalkNil, acc)"
| "walk w path UnreadableDir acc = (WalkErr path, acc)"
| "walk w path LstatError acc = (WalkErr path, acc)"
| "walk w path (Dir entries) acc =
     (if shouldIgnore w path then (SkipDir, acc)
      else walk_names w path entries (acc @ [path]))"
| "walk_names w path [] acc = (WalkNil, acc)"
| "walk_names w path (entry # rest) acc =
     (case walk w (Join path (fst entry)) (snd entry) acc of
        (WalkErr e, acc') \<Rightarrow> (WalkErr e, acc')
      | (_, acc') \<Rightarrow> walk_names w path rest acc')"

definition Walk :: "Watcher \<Rightarrow> string \<Rightarrow> fnode \<Rightarrow> string list \<Rightarrow> walk_result \<times> string list" where
  "Walk w root node acc =
     (case walk w root node acc of
        (SkipDir, acc') \<Rightarrow> (WalkNil, acc')
      | r \<Rightarrow> r)"

definition Watch :: "Watcher \<Rightarrow> string \<Rightarrow> fnode \<Rightarrow> watch_error option \<times> Watcher" where
  "Watch w dir node =
     (case Walk w dir node (watcher w) of
        (WalkErr e, acc) \<Rightarrow> (Some (WalkFailed dir e), w\<lparr>watcher := acc\<rparr>)
      | (_, acc) \<Rightarrow> (None, w\<lparr>watcher := acc\<rparr>))"

subsection \<open>The event loop \<open>run\<close> and its debounce timer\<close>

text \<open>
  The loop's locals are \<open>timer\<close> and \<open>timerActive\<close>. A timer made by
  \<open>time.AfterFunc\<close> is its deadline and whether the runtime still has it armed;
  \<open>orphans\<close> are timers the variable no longer points to and that were still armed
  when it was overwritten. \<open>signals\<close> and \<open>dropped\<close> record the instants at which a
  timer's callback put a signal on \<open>Events\<close>, or found the channel full.
\<close>

record Timer =
  deadline :: int
  armed :: bool

record RunState =
  self :: Watcher
  timer :: "Timer option"
  timerActive :: bool
  orphans :: "Timer list"
  returned :: bool
  signals :: "int list"
  dropped :: "int list"

text \<open>
  What happens to a running watcher, each with its instant: a raw event or an error of
  fsnotify, one of its channels being closed, \<open>done\<close> being closed, and the consumer
  of \<open>Events\<close> receiving.
\<close>

datatype input =
    RawEvent Event
  | RawError string
  | EventsClosed
  | ErrorsClosed
  | Done
  | Receive

definition run_init :: "Watcher \<Rightarrow> RunState" where
  "run_init w =
     \<lparr> self = w, timer = None, timerActive = False, orphans = [], returned = False,
       signals = [], dropped = [] \<rparr>"

text \<open>The callback given to \<open>time.AfterFunc\<close>, run by a timer with deadline \<open>d\<close>.\<close>

definition emit :: "int \<Rightarrow> RunState \<Rightarrow> RunState" where
  "emit d s =
     (if Events (self s) < 1
      then s\<lparr>self := (self s)\<lparr>Events := Events (self s) + 1\<rparr>,
             signals := signals s @ [d], timerActive := False\<rparr>
      else s\<lparr>dropped := dropped s @ [d], timerActive := False\<rparr>)"

definition fire_current :: "RunState \<Rightarrow> RunState" where
  "fire_current s =
     (case timer s of
        None \<Rightarrow> s
      | Some t \<Rightarrow> (emit (deadline t) s)\<lparr>timer := Some (t\<lparr>armed := False\<rparr>)\<rparr>)"

text \<open>Time passes up to \<open>now\<close>: every armed timer whose deadline is reached fires.\<close>

definition elapse :: "int \<Rightarrow> RunState \<Rightarrow> RunState" where
  "elapse now s =
     (let s1 = fold (\<lambda>t. emit (deadline t)) (filter (\<lambda>t. deadline t \<le> now) (orphans s))
                 (s\<lparr>orphans := filter (\<lambda>t. \<not> deadline t \<le> now) (orphans s)\<rparr>)
      in case timer s1 of
           None \<Rightarrow> s1
         | Some t \<Rightarrow> if armed t \<and> deadline t \<le> now then fire_current s1 else s1)"

text \<open>\<open>timer.Stop()\<close> on the loop's timer.\<close>

definition stop_timer :: "RunState \<Rightarrow> RunState" where
  "stop_timer s = s\<lparr>timer := map_option (\<lambda>t. t\<lparr>armed := False\<rparr>) (timer s)\<rparr>"

definition arm_timer :: "int \<Rightarrow> RunState \<Rightarrow> RunState" where
  "arm_timer now s =
     s\<lparr>orphans := orphans s @ (case timer s of None \<Rightarrow> [] | Some t \<Rightarrow> if armed t then [t] else []),
       timer := Some \<lparr>deadline = now + debounceTime (self s), armed = True\<rparr>,
       timerActive := True\<rparr>"

definition onEvent :: "WatchEnv \<Rightarrow> int \<Rightarrow> Event \<Rightarrow> RunState \<Rightarrow> RunState" where
  "onEvent env now event s =
     (if shouldSkipEvent env (self s) event then s
      else
        let s1 = (if timerActive s \<and> timer s \<noteq> None then stop_timer s else s);
            s2 = arm_timer now s1
        in if Op event AND Create = Create \<and> IsDir env (Name event)
                \<and> \<not> shouldIgnore (self s2) (Name event)
           then s2\<lparr>self := (self s2)\<lparr>watcher := watcher (self s2) @ [Name event]\<rparr>\<rparr>
           else s2)"

definition onError :: "string \<Rightarrow> RunState \<Rightarrow> RunState" where
  "onError err s =
     (if length (Errors (self s)) < 10
      then s\<lparr>self := (self s)\<lparr>Errors := Errors (self s) @ [err]\<rparr>\<rparr>
      else s)"

definition onDone :: "RunState \<Rightarrow> RunState" where
  "onDone s = (if timer s \<noteq> None then stop_timer s else s)\<lparr>returned := True\<rparr>"

definition receive :: "RunState \<Rightarrow> RunState" where
  "receive s =
     (if 0 < Events (self s) then s\<lparr>self := (self s)\<lparr>Events := Events (self s) - 1\<rparr>\<rparr> else s)"

definition step :: "WatchEnv \<Rightarrow> int \<times> input \<Rightarrow> RunState \<Rightarrow> RunState" where
  "step env x s =
     (let now = fst x; s1 = elapse now s in
      case snd x of
        Receive \<Rightarrow> receive s1
      | RawEvent event \<Rightarrow> if returned s1 then s1 else onEvent env now event s1
      | RawError err \<Rightarrow> if returned s1 then s1 else onError err s1
      | EventsClosed \<Rightarrow> s1\<lparr>returned := True\<rparr>
      | ErrorsClosed \<Rightarrow> s1\<lparr>returned := True\<rparr>
      | Done \<Rightarrow> if returned s1 then s1 else onDone s1)"

fun run :: "WatchEnv \<Rightarrow> (int \<times> input) list \<Rightarrow> RunState \<Rightarrow> RunState" where
  "run env [] s = s"
| "run env (x # xs) s = run env xs (step env x s)"

text \<open>Nothing more happens and time passes: every timer still armed fires.\<close>

definition quiesce :: "RunState \<Rightarrow> RunState" where
  "quiesce s =
     (let s1 = fold (\<lambda>t. emit (deadline t)) (orphans s) (s\<lparr>orphans := []\<rparr>)
      in case timer s1 of
           None \<Rightarrow> s1
         | Some t \<Rightarrow> if armed t then fire_current s1 else s1)"

section \<open>The lifecycle manager (internal/process/process.go)\<close>

subsection \<open>Data\<close>

text \<open>
  Go's \<open>int\<close> and \<open>time.Duration\<close> (an \<open>int64\<close> of nanoseconds) are 64-bit
  words read as signed; \<open>x > 0\<close> in the source is \<open>0 <s x\<close> here.
\<close>

type_synonym go_int = "64 word"
type_synonym Duration = "64 word"

definition Millisecond :: Duration where "Millisecond = 1000000"
definition Second :: Duration where "Second = 1000000000"

text \<open>\<open>config.App\<close>; its field \<open>Name\<close> is \<open>AppName\<close> here.\<close>

record App =
  AppName :: string
  RunCmd :: string
  BuildCmd :: string
  Cmd :: string
  Bin :: string
  Args :: "string list"
  WatchDir :: string
  TmpDir :: string
  Env :: "(string \<times> string) list"
  Delay :: go_int
  KillDelay :: string
  Rerun :: bool
  RerunDelay :: go_int
  ExcludeDir :: "string list"
  ExcludeFile :: "string list"
  ExcludeRegex :: "string list"
  FollowSymlink :: bool
  PreCmd :: "string list"
  PostCmd :: "string list"
  SendInterrupt :: bool
  StopOnError :: bool
  LogSilent :: bool
  CleanOnExit :: bool

text \<open>
  \<open>exec.Cmd\<close> as the manager uses it: the argument vector, the working directory, the
  entries appended to the inherited environment, the process-group request, and
  \<open>Process\<close>, which is \<open>nil\<close> until the command has been started.
\<close>

record ExecCmd =
  CmdArgs :: "string list"
  CmdDir :: string
  CmdEnv :: "string list"
  Setpgid :: bool
  Process :: "nat option"

record Manager =
  app :: App
  cmd :: "ExecCmd option"
  running :: bool
  stopDelay :: Duration
  startDelay :: Duration
  buildTimeout :: Duration
  tmpFiles :: "string list"

datatype signal = SIGTERM | SIGINT | SIGKILL

text \<open>
  What a manager does to the operating system, in the order it does it. Log lines are
  left out.
\<close>

datatype effect =
    Slept Duration
  | Executed "string list" "string list"
  | Spawned "string list" nat
  | SpawnFailed "string list"
  | KilledGroup nat signal
  | SignalledProcess nat signal
  | Waited nat

datatype start_outcome = StdoutPipeError | StderrPipeError | StartError | Started nat

text \<open>
  What the operating system answers, each answer depending on everything done so far:
  whether \<open>CombinedOutput\<close> of a command reports an error, how starting a command ends,
  \<open>syscall.Getpgid\<close>, and whether a signalled process is gone within the five seconds
  \<open>Stop\<close> grants it. After a kill signal \<open>Process.Wait\<close> is taken to return.
  \<open>ParseDuration\<close> is \<open>time.ParseDuration\<close>.
\<close>

record OS =
  CombinedOutput :: "effect list \<Rightarrow> string list \<Rightarrow> string option"
  StartProcess :: "effect list \<Rightarrow> string list \<Rightarrow> start_outcome"
  Getpgid :: "effect list \<Rightarrow> nat \<Rightarrow> nat option"
  ExitsInTime :: "effect list \<Rightarrow> nat \<Rightarrow> bool"
  ParseDuration :: "string \<Rightarrow> Duration option"

datatype error =
    AlreadyRunning
  | EmptyRunCommand
  | EmptyCommand
  | StdoutPipeFailed
  | StderrPipeFailed
  | StartProcessFailed
  | CommandFailed string
  | PreCommandFailed error
  | BuildFailed error
  | PostCommandFailed error
  | FailedToStart error

definition NewManager :: "App \<Rightarrow> Manager" where
  "NewManager a =
     \<lparr> app = a, cmd = None, running = False, stopDelay = 500 * Millisecond,
       startDelay = 200 * Millisecond, buildTimeout = 30 * Second, tmpFiles = [] \<rparr>"

definition SetDelays :: "Duration \<Rightarrow> Duration \<Rightarrow> Manager \<Rightarrow> Manager" where
  "SetDelays stopD startD m = m\<lparr>stopDelay := stopD, startDelay := startD\<rparr>"

definition envEntries :: "App \<Rightarrow> string list" where
  "envEntries a = map (\<lambda>kv. fst kv @ ''='' @ snd kv) (Env a)"

subsection \<open>\<open>Start\<close>, its reaper, \<open>Stop\<close> and \<open>IsRunning\<close>\<close>

text \<open>
  Every function takes the manager and the effects so far and returns its error (or
  none), the manager and the effects as they are when it returns. \<open>Start\<close> and
  \<open>Stop\<close> hold the manager's mutex from entry to return.
\<close>

definition Start :: "OS \<Rightarrow> Manager \<Rightarrow> effect list \<Rightarrow> error option \<times> Manager \<times> effect list" where
  "Start os m tr =
     (if running m then (Some AlreadyRunning, m, tr)
      else
        case (if Bin (app m) \<noteq> [] then Some (Bin (app m) # Args (app m))
              else if RunCmd (app m) \<noteq> [] then Some (Fields (RunCmd (app m)))
              else None) of
          None \<Rightarrow> (None, m, tr)
        | Some cmdParts \<Rightarrow>
            if cmdParts = [] then (Some EmptyRunCommand, m, tr)
            else
              let c = \<lparr> CmdArgs = cmdParts, CmdDir = ''.'', CmdEnv = envEntries (app m),
                        Setpgid = True, Process = None \<rparr>;
                  m1 = m\<lparr>cmd := Some c\<rparr>
              in (case StartProcess os tr cmdParts of
                    StdoutPipeError \<Rightarrow> (Some StdoutPipeFailed, m1, tr)
                  | StderrPipeError \<Rightarrow> (Some StderrPipeFailed, m1, tr)
                  | StartError \<Rightarrow> (Some StartProcessFailed, m1, tr @ [SpawnFailed cmdParts])
                  | Started pid \<Rightarrow>
                      (None, m1\<lparr>cmd := Some (c\<lparr>Process := Some pid\<rparr>), running := True\<rparr>,
                       tr @ [Spawned cmdParts pid])))"

text \<open>
  The goroutine \<open>Start\<close> leaves behind: when \<open>cmd.Wait\<close> has returned it takes the
  mutex and clears the flag and the handle.
\<close>

definition reaper :: "Manager \<Rightarrow> Manager" where
  "reaper m = m\<lparr>running := False, cmd := None\<rparr>"

definition sendSignal :: "OS \<Rightarrow> nat \<Rightarrow> signal \<Rightarrow> effect list \<Rightarrow> effect list" where
  "sendSignal os pid sig tr =
     (case Getpgid os tr pid of
        Some pgid \<Rightarrow> tr @ [KilledGroup pgid sig]
      | None \<Rightarrow> tr @ [SignalledProcess pid sig])"

definition Stop :: "OS \<Rightarrow> Manager \<Rightarrow> effect list \<Rightarrow> error option \<times> Manager \<times> effect list" where
  "Stop os m tr =
     (if \<not> running m then (None, m, tr)
      else case cmd m of
        None \<Rightarrow> (None, m, tr)
      | Some c \<Rightarrow>
         (case Process c of
            None \<Rightarrow> (None, m, tr)
          | Some pid \<Rightarrow>
              let sig = (if SendInterrupt (app m) then SIGINT else SIGTERM);
                  tr1 = sendSignal os pid sig tr;
                  tr2 = (if ExitsInTime os tr1 pid then tr1 @ [Waited pid]
                         else sendSignal os pid SIGKILL tr1 @ [Waited pid])
              in (None, m\<lparr>running := False, cmd := None\<rparr>, tr2)))"

definition IsRunning :: "Manager \<Rightarrow> bool" where
  "IsRunning m = running m"

subsection \<open>\<open>runCommand\<close> and \<open>Restart\<close>\<close>

definition runCommand :: "OS \<Rightarrow> Manager \<Rightarrow> string \<Rightarrow> effect list \<Rightarrow> error option \<times> effect list" where
  "runCommand os m command tr =
     (if command = [] then (None, tr)
      else
        let parts = Fields command in
        if parts = [] then (Some EmptyCommand, tr)
        else case CombinedOutput os tr parts of
               Some msg \<Rightarrow> (Some (CommandFailed msg), tr @ [Executed parts (envEntries (app m))])
             | None \<Rightarrow> (None, tr @ [Executed parts (envEntries (app m))]))"

text \<open>
  The two loops over \<open>PreCmd\<close> and \<open>PostCmd\<close>: a failing command ends the restart
  only under \<open>StopOnError\<close>, with the error wrapped by \<open>wrap\<close>.
\<close>

fun runCommands ::
  "OS \<Rightarrow> Manager \<Rightarrow> (error \<Rightarrow> error) \<Rightarrow> string list \<Rightarrow> effect list \<Rightarrow> error option \<times> effect list" where
  "runCommands os m wrap [] tr = (None, tr)"
| "runCommands os m wrap (c # cs) tr =
     (case runCommand os m c tr of
        (Some err, tr1) \<Rightarrow>
          if StopOnError (app m) then (Some (wrap err), tr1) else runCommands os m wrap cs tr1
      | (None, tr1) \<Rightarrow> runCommands os m wrap cs tr1)"

definition sleepIfPositive :: "Duration \<Rightarrow> Duration \<Rightarrow> effect list \<Rightarrow> effect list" where
  "sleepIfPositive guard d tr = (if 0 <s guard then tr @ [Slept d] else tr)"

text \<open>Lines 44 to 71 of \<open>Restart\<close>: stop, the kill delay, the pre-commands.\<close>

definition stopAndPreCommands ::
  "OS \<Rightarrow> Manager \<Rightarrow> effect list \<Rightarrow> error option \<times> Manager \<times> effect list" where
  "stopAndPreCommands os m tr =
     (case Stop os m tr of
        (stopErr, m1, tr1) \<Rightarrow>
          let tr2 = (if KillDelay (app m1) \<noteq> []
                     then (case ParseDuration os (KillDelay (app m1)) of
                             Some duration \<Rightarrow> sleepIfPositive duration duration tr1
                           | None \<Rightarrow> tr1)
                     else tr1)
          in case runCommands os m1 PreCommandFailed (PreCmd (app m1)) tr2 of
               (e, tr3) \<Rightarrow> (e, m1, tr3))"

definition buildCmdOf :: "App \<Rightarrow> string" where
  "buildCmdOf a = (if BuildCmd a = [] \<and> Cmd a \<noteq> [] then Cmd a else BuildCmd a)"

definition trackBin :: "Manager \<Rightarrow> Manager" where
  "trackBin m =
     (if Bin (app m) \<noteq> [] \<and> CleanOnExit (app m)
      then m\<lparr>tmpFiles := tmpFiles m @ [Bin (app m)]\<rparr> else m)"

text \<open>Lines 73 to 102 of \<open>Restart\<close>: the build.\<close>

definition buildStep :: "OS \<Rightarrow> Manager \<Rightarrow> effect list \<Rightarrow> error option \<times> Manager \<times> effect list" where
  "buildStep os m tr =
     (let buildCmd = buildCmdOf (app m) in
      if buildCmd \<noteq> [] then
        (case runCommand os m buildCmd tr of
           (Some err, tr1) \<Rightarrow>
             if \<not> Rerun (app m)
             then (if StopOnError (app m) then (Some (BuildFailed err), m, tr1)
                   else (Some err, m, tr1))
             else (None, trackBin m,
                   sleepIfPositive (RerunDelay (app m)) (RerunDelay (app m) * Millisecond) tr1)
         | (None, tr1) \<Rightarrow> (None, trackBin m, tr1))
      else (None, m, tr))"

text \<open>Lines 104 to 121 of \<open>Restart\<close>: the post-commands and the start delay.\<close>

definition postCommandsAndDelay ::
  "OS \<Rightarrow> Manager \<Rightarrow> effect list \<Rightarrow> error option \<times> Manager \<times> effect list" where
  "postCommandsAndDelay os m tr =
     (case runCommands os m PostCommandFailed (PostCmd (app m)) tr of
        (Some e, tr1) \<Rightarrow> (Some e, m, tr1)
      | (None, tr1) \<Rightarrow>
          (None, m, sleepIfPositive (Delay (app m)) (Delay (app m) * Millisecond) tr1))"

text \<open>Lines 123 to 131 of \<open>Restart\<close>: the start step.\<close>

definition startStep :: "OS \<Rightarrow> Manager \<Rightarrow> effect list \<Rightarrow> error option \<times> Manager \<times> effect list" where
  "startStep os m tr =
     (case Start os m tr of
        (Some err, m1, tr1) \<Rightarrow>
          (Some (if StopOnError (app m) then FailedToStart err else err), m1, tr1)
      | (None, m1, tr1) \<Rightarrow> (None, m1, tr1))"

text \<open>
  Everything \<open>Restart\<close> does before the start step; an error here is returned by
  \<open>Restart\<close> without \<open>Start\<close> being called.
\<close>

definition beforeStart :: "OS \<Rightarrow> Manager \<Rightarrow> effect list \<Rightarrow> error option \<times> Manager \<times> effect list" where
  "beforeStart os m tr =
     (case stopAndPreCommands os m tr of
        (Some e, m1, tr1) \<Rightarrow> (Some e, m1, tr1)
      | (None, m1, tr1) \<Rightarrow>
          (case buildStep os m1 tr1 of
             (Some e, m2, tr2) \<Rightarrow> (Some e, m2, tr2)
           | (None, m2, tr2) \<Rightarrow> postCommandsAndDelay os m2 tr2))"

definition Restart :: "OS \<Rightarrow> Manager \<Rightarrow> effect list \<Rightarrow> error option \<times> Manager \<times> effect list" where
  "Restart os m tr =
     (case beforeStart os m tr of
        (Some e, m1, tr1) \<Rightarrow> (Some e, m1, tr1)
      | (None, m1, tr1) \<Rightarrow> startStep os m1 tr1)"

subsection \<open>Histories of one manager\<close>

text \<open>
  What happens to a manager after \<open>NewManager\<close>, in any order: calls of \<open>Start\<close>,
  \<open>Stop\<close>, \<open>Restart\<close> and \<open>SetDelays\<close> (from the routing task, the shutdown
  or anyone else) and the reaper of an earlier start getting the mutex, which it may do
  at any later point, also after a newer start. A \<open>Restart\<close> interleaved with other
  steps is its \<open>Stop\<close> and its \<open>Start\<close> as separate steps.
\<close>

datatype action =
    CallStart
  | CallStop
  | CallRestart
  | CallSetDelays Duration Duration
  | ReaperExit

fun act :: "OS \<Rightarrow> action \<Rightarrow> Manager \<times> effect list \<Rightarrow> Manager \<times> effect list" where
  "act os CallStart (m, tr) = snd (Start os m tr)"
| "act os CallStop (m, tr) = snd (Stop os m tr)"
| "act os CallRestart (m, tr) = snd (Restart os m tr)"
| "act os (CallSetDelays stopD startD) (m, tr) = (SetDelays stopD startD m, tr)"
| "act os ReaperExit (m, tr) = (reaper m, tr)"

definition history :: "OS \<Rightarrow> App \<Rightarrow> action list \<Rightarrow> Manager \<times> effect list" where
  "history os a acts = fold (act os) acts (NewManager a, [])"

text \<open>The processes a manager tracks as running, and the process its handle holds.\<close>

definition processHandle :: "Manager \<Rightarrow> nat option" where
  "processHandle m = (case cmd m of None \<Rightarrow> None | Some c \<Rightarrow> Process c)"

definition tracked :: "Manager \<Rightarrow> nat set" where
  "tracked m = (if running m then set_option (processHandle m) else {})"

text \<open>
  The flag and the handle agree: the flag is set exactly when the handle holds a
  started process.
\<close>

definition consistent :: "Manager \<Rightarrow> bool" where
  "consistent m = (running m = (processHandle m \<noteq> None))"

section \<open>The session workspace (internal/session) and the orchestrator (internal/runner)\<close>

subsection \<open>The session directory\<close>

text \<open>
  What the session package asks of its environment: \<open>rand.Read\<close> filling a buffer of
  the given length (or failing), \<open>os.MkdirAll\<close> and \<open>os.RemoveAll\<close> succeeding or
  not.
\<close>

record SessionEnv =
  RandRead :: "nat \<Rightarrow> 8 word list option"
  MkdirAll :: "string \<Rightarrow> bool"
  RemoveAll :: "string \<Rightarrow> bool"

datatype session_error = SessionIDFailed | MkdirFailed string | InvalidSessionDir string
  | RemoveFailed string

definition hexDigit :: "nat \<Rightarrow> char" where
  "hexDigit n = ''0123456789abcdef'' ! (n mod 16)"

definition hexByte :: "8 word \<Rightarrow> string" where
  "hexByte b = [hexDigit (unat b div 16), hexDigit (unat b mod 16)]"

text \<open>\<open>fmt.Sprintf("%08x", bytes)\<close> on the four bytes read: eight hexadecimal digits.\<close>

definition generateSessionID :: "SessionEnv \<Rightarrow> session_error + string" where
  "generateSessionID env =
     (case RandRead env 4 of
        None \<Rightarrow> Inl SessionIDFailed
      | Some bytes \<Rightarrow> Inr (concat (map hexByte bytes)))"

definition GenerateSessionDir :: "SessionEnv \<Rightarrow> session_error + string" where
  "GenerateSessionDir env =
     (case generateSessionID env of
        Inl e \<Rightarrow> Inl SessionIDFailed
      | Inr sessionID \<Rightarrow>
          let sessionDir = Join (Join ''/tmp'' ''wisp'') sessionID in
          if MkdirAll env sessionDir then Inr sessionDir else Inl (MkdirFailed sessionDir))"

definition CleanupSessionDir :: "SessionEnv \<Rightarrow> string \<Rightarrow> session_error option" where
  "CleanupSessionDir env dir =
     (if dir = [] then None
      else if \<not> HasPrefix dir ''/tmp/wisp/'' then Some (InvalidSessionDir dir)
      else if RemoveAll env dir then None else Some (RemoveFailed dir))"

subsection \<open>\<open>Run\<close> up to the start of the applications, and \<open>translatePaths\<close>\<close>

text \<open>
  The configuration's map from names to applications is an association list read with
  \<open>map_of\<close>; so is \<open>appsToRun\<close>, built with \<open>storeApp\<close>. Of the runner only the fields
  \<open>Run\<close> reads or writes before it starts applications are kept.
\<close>

record Config =
  Apps :: "(string \<times> App) list"

record Runner =
  config :: Config
  sessionDir :: string

datatype run_error =
    SessionDirFailed session_error
  | AppNotFound string
  | NoApplications
  | StartupFailed

definition translatePaths :: "Runner \<Rightarrow> App \<Rightarrow> App" where
  "translatePaths r a =
     (if sessionDir r = [] then a
      else
        let a1 = (if Contains (Cmd a) ''./tmp/''
                  then a\<lparr>Cmd := ReplaceAll (Cmd a) ''./tmp/'' (sessionDir r @ ''/'')\<rparr> else a);
            a2 = (if Contains (BuildCmd a1) ''./tmp/''
                  then a1\<lparr>BuildCmd := ReplaceAll (BuildCmd a1) ''./tmp/'' (sessionDir r @ ''/'')\<rparr>
                  else a1);
            a3 = (if HasPrefix (Bin a2) ''./tmp/''
                  then a2\<lparr>Bin := Replace (Bin a2) ''./tmp/'' (sessionDir r @ ''/'') (Some 1)\<rparr>
                  else a2);
            a4 = (if TmpDir a3 = ''./tmp'' then a3\<lparr>TmpDir := sessionDir r\<rparr> else a3)
        in a4)"

text \<open>\<open>appsToRun[name] = v\<close> on the association list.\<close>

fun storeApp :: "string \<Rightarrow> App \<Rightarrow> (string \<times> App) list \<Rightarrow> (string \<times> App) list" where
  "storeApp k v [] = [(k, v)]"
| "storeApp k v (p # ps) = (if fst p = k then (k, v) # ps else p # storeApp k v ps)"

text \<open>The loop over the names given to \<open>Run\<close>.\<close>

fun selectNamed ::
  "Runner \<Rightarrow> string list \<Rightarrow> (string \<times> App) list \<Rightarrow> run_error + (string \<times> App) list" where
  "selectNamed r [] appsToRun = Inr appsToRun"
| "selectNamed r (name # names) appsToRun =
     (case map_of (Apps (config r)) name of
        None \<Rightarrow> Inl (AppNotFound name)
      | Some a \<Rightarrow> selectNamed r names (storeApp name (translatePaths r a) appsToRun))"

definition selectAll :: "Runner \<Rightarrow> (string \<times> App) list" where
  "selectAll r = map (\<lambda>p. (fst p, translatePaths r (snd p))) (Apps (config r))"

text \<open>
  Lines 39 to 72 of \<open>Run\<close>: everything before the first application is started. The
  result is the error \<open>Run\<close> returns there, or the applications it goes on to start;
  the runner comes back with the session directory it was given.
\<close>

definition selectApps ::
  "SessionEnv \<Rightarrow> Runner \<Rightarrow> string list \<Rightarrow> (run_error + (string \<times> App) list) \<times> Runner" where
  "selectApps env r appNames =
     (case GenerateSessionDir env of
        Inl e \<Rightarrow> (Inl (SessionDirFailed e), r)
      | Inr dir \<Rightarrow>
          let r1 = r\<lparr>sessionDir := dir\<rparr> in
          (case (if appNames \<noteq> [] then selectNamed r1 appNames [] else Inr (selectAll r1)) of
             Inl e \<Rightarrow> (Inl e, r1)
           | Inr appsToRun \<Rightarrow>
               if appsToRun = [] then (Inl NoApplications, r1) else (Inr appsToRun, r1)))"

definition cleanupSessionDirectories :: "SessionEnv \<Rightarrow> Runner \<Rightarrow> session_error option" where
  "cleanupSessionDirectories env r =
     (if sessionDir r \<noteq> [] then CleanupSessionDir env (sessionDir r) else None)"

section \<open>Bursts of events\<close>

text \<open>
  A burst is a list of raw events with their arrival instants, in order of arrival.
  \<open>raw\<close> feeds it to the loop with nothing else happening; \<open>served\<close> takes with
  every event the instant at which the consumer next receives from \<open>Events\<close>.
\<close>

definition raw :: "(int \<times> Event) list \<Rightarrow> (int \<times> input) list" where
  "raw evs = map (\<lambda>x. (fst x, RawEvent (snd x))) evs"

definition served :: "(int \<times> Event \<times> int) list \<Rightarrow> (int \<times> input) list" where
  "served evs = concat (map (\<lambda>x. [(fst x, RawEvent (fst (snd x))), (snd (snd x), Receive)]) evs)"

text \<open>Each arrival is less than the window \<open>d\<close> after the one before.\<close>

fun within_window :: "int \<Rightarrow> int list \<Rightarrow> bool" where
  "within_window d (t # t' # ts) = (t \<le> t' \<and> t' < t + d \<and> within_window d (t' # ts))"
| "within_window d ts = True"

text \<open>Each arrival is more than the window \<open>d\<close> after the one before.\<close>

fun spaced_apart :: "int \<Rightarrow> int list \<Rightarrow> bool" where
  "spaced_apart d (t # t' # ts) = (t \<le> t' \<and> t + d < t' \<and> spaced_apart d (t' # ts))"
| "spaced_apart d ts = True"

text \<open>
  Arrivals more than the window apart, the consumer receiving after the timer of an
  event has fired and before the next event arrives.
\<close>

fun drained :: "int \<Rightarrow> (int \<times> Event \<times> int) list \<Rightarrow> bool" where
  "drained d [] = True"
| "drained d [x] = (fst x \<le> snd (snd x) \<and> fst x + d \<le> snd (snd x))"
| "drained d (x # y # xs) =
     (fst x \<le> snd (snd x) \<and> fst x + d \<le> snd (snd x) \<and> snd (snd x) \<le> fst y
      \<and> fst x + d < fst y \<and> drained d (y # xs))"

definition qualifies :: "WatchEnv \<Rightarrow> Watcher \<Rightarrow> Event \<Rightarrow> bool" where
  "qualifies env w event = (\<not> shouldSkipEvent env w event)"

text \<open>
  Two shapes of the loop's state while it runs for the watcher \<open>w\<close>: the timer of an
  event that arrived at \<open>t\<close> is armed, or no timer is armed.
\<close>

definition same_rules :: "Watcher \<Rightarrow> RunState \<Rightarrow> bool" where
  "same_rules w s =
     (excludeFiles (self s) = excludeFiles w \<and> excludeRegex (self s) = excludeRegex w
      \<and> debounceTime (self s) = debounceTime w \<and> orphans s = [] \<and> \<not> returned s)"

definition armed_at :: "Watcher \<Rightarrow> int \<Rightarrow> RunState \<Rightarrow> bool" where
  "armed_at w t s =
     (same_rules w s \<and> timerActive s
      \<and> timer s = Some \<lparr>deadline = t + debounceTime w, armed = True\<rparr>)"

definition idle :: "Watcher \<Rightarrow> RunState \<Rightarrow> bool" where
  "idle w s =
     (same_rules w s \<and> \<not> timerActive s
      \<and> (case timer s of None \<Rightarrow> True | Some t \<Rightarrow> \<not> armed t))"

section \<open>Example configurations\<close>

definition exampleApp :: App where
  "exampleApp =
     \<lparr> AppName = ''api'', RunCmd = ''/tmp/api-server -v'', BuildCmd = [], Cmd = [], Bin = [],
       Args = [], WatchDir = ''/srv/api'', TmpDir = ''/tmp'', Env = [(''PORT'', ''8080'')],
       Delay = 0, KillDelay = [], Rerun = False, RerunDelay = 500, ExcludeDir = [],
       ExcludeFile = [], ExcludeRegex = [], FollowSymlink = False, PreCmd = [], PostCmd = [],
       SendInterrupt = False, StopOnError = False, LogSilent = False, CleanOnExit = False \<rparr>"

text \<open>
  An operating system on which the command \<open>false\<close> fails and every other command
  succeeds, every start succeeds, and no process leaves before it is killed.
\<close>

definition exampleOS :: OS where
  "exampleOS =
     \<lparr> CombinedOutput = (\<lambda>tr argv. if argv = [''false''] then Some ''exit status 1'' else None),
       StartProcess = (\<lambda>tr argv. Started (Suc (length tr))),
       Getpgid = (\<lambda>tr pid. Some pid),
       ExitsInTime = (\<lambda>tr pid. False),
       ParseDuration = (\<lambda>s. None) \<rparr>"

definition exampleRunning :: Manager where
  "exampleRunning = fst (snd (Start exampleOS (NewManager exampleApp) []))"

definition exampleBuilding :: "bool \<Rightarrow> Manager" where
  "exampleBuilding rerun = NewManager (exampleApp\<lparr>BuildCmd := ''false'', Rerun := rerun\<rparr>)"

definition exampleEnv :: WatchEnv where
  "exampleEnv = \<lparr>Match = (\<lambda>p n. False), Compile = (\<lambda>p. None), IsDir = (\<lambda>p. False)\<rparr>"

definition exampleSession :: SessionEnv where
  "exampleSession =
     \<lparr> RandRead = (\<lambda>n. Some (take n [0x0a, 0x1b, 0x2c, 0x3d])),
       MkdirAll = (\<lambda>p. True), RemoveAll = (\<lambda>p. True) \<rparr>"

definition brokenSession :: SessionEnv where
  "brokenSession = exampleSession\<lparr>MkdirAll := (\<lambda>p. False)\<rparr>"

definition exampleRunner :: Runner where
  "exampleRunner = \<lparr> config = \<lparr>Apps = [(''api'', exampleApp)]\<rparr>, sessionDir = [] \<rparr>"

definition exampleTree :: fnode where
  "exampleTree = Dir [(''assets'', Symlink ''/mnt/shared/assets''), (''cmd'', Dir [(''main.go'', File)])]"

definition exampleEvent :: Event where
  "exampleEvent = \<lparr>Name = ''/srv/api/main.go'', Op = Write\<rparr>"

section \<open>Properties of the lifecycle manager\<close>

lemma Start_app: "app (fst (snd (Start os m tr))) = app m"
  by (simp add: Start_def Let_def split: option.splits start_outcome.splits)

lemma Stop_app: "app (fst (snd (Stop os m tr))) = app m"
  by (simp add: Stop_def Let_def split: option.splits)

lemma Start_consistent: "consistent m \<Longrightarrow> consistent (fst (snd (Start os m tr)))"
  by (simp add: Start_def Let_def consistent_def processHandle_def split: option.splits start_outcome.splits)

lemma Stop_cases:
  "((\<not> running m \<or> processHandle m = None) \<and> Stop os m tr = (None, m, tr)) \<or>
   (\<exists>tr'. running m \<and> processHandle m \<noteq> None \<and> Stop os m tr = (None, m\<lparr>running := False, cmd := None\<rparr>, tr'))"
  by (simp add: Stop_def Let_def processHandle_def split: option.splits)

lemma Stop_result:
  "Stop os m tr = (e, m', tr') \<Longrightarrow> e = None \<and> app m' = app m \<and> tmpFiles m' = tmpFiles m"
  using Stop_cases [where os = os and m = m and tr = tr] by auto

lemma Stop_stopped:
  "consistent m \<Longrightarrow> Stop os m tr = (e, m', tr') \<Longrightarrow> \<not> running m' \<and> processHandle m' = None"
  using Stop_cases [where os = os and m = m and tr = tr] by (auto simp add: consistent_def processHandle_def)

lemma Stop_consistent: "consistent m \<Longrightarrow> consistent (fst (snd (Stop os m tr)))"
  using Stop_cases [where os = os and m = m and tr = tr] by (auto simp add: consistent_def processHandle_def)

lemma reaper_consistent: "consistent (reaper m)"
  by (simp add: reaper_def consistent_def processHandle_def)

lemma stopAndPreCommands_manager:
  "stopAndPreCommands os m tr = (e, m', tr') \<Longrightarrow> m' = fst (snd (Stop os m tr))"
  by (auto simp add: stopAndPreCommands_def Let_def split: prod.splits)

lemma trackBin_simps [simp]:
  "running (trackBin m) = running m" "cmd (trackBin m) = cmd m" "app (trackBin m) = app m"
  by (simp_all add: trackBin_def)

lemma buildStep_manager:
  "buildStep os m tr = (e, m', tr') \<Longrightarrow> running m' = running m \<and> cmd m' = cmd m \<and> app m' = app m"
  by (auto simp add: buildStep_def Let_def split: prod.splits option.splits if_splits)

lemma postCommandsAndDelay_manager:
  "postCommandsAndDelay os m tr = (e, m', tr') \<Longrightarrow> m' = m"
  by (auto simp add: postCommandsAndDelay_def split: prod.splits option.splits)

lemma beforeStart_manager:
  assumes "beforeStart os m tr = (e, m', tr')"
  shows "running m' = running (fst (snd (Stop os m tr))) \<and> cmd m' = cmd (fst (snd (Stop os m tr)))
         \<and> app m' = app m"
proof -
  obtain e1 m1 tr1 where s1: "stopAndPreCommands os m tr = (e1, m1, tr1)"
    using prod_cases3 by blast
  then have m1: "m1 = fst (snd (Stop os m tr))"
    by (rule stopAndPreCommands_manager)
  obtain e2 m2 tr2 where s2: "buildStep os m1 tr1 = (e2, m2, tr2)"
    using prod_cases3 by blast
  note b = buildStep_manager [OF s2]
  obtain e3 m3 tr3 where s3: "postCommandsAndDelay os m2 tr2 = (e3, m3, tr3)"
    using prod_cases3 by blast
  then have m3: "m3 = m2"
    by (rule postCommandsAndDelay_manager)
  have "m' = m1 \<or> m' = m2"
    using assms s1 s2 s3 m3 by (cases e1; cases e2) (simp_all add: beforeStart_def)
  then show ?thesis
    using b m1 Stop_app [of os m tr] by auto
qed

lemma consistent_cong:
  "running m' = running m \<Longrightarrow> cmd m' = cmd m \<Longrightarrow> consistent m' = consistent m"
  by (simp add: consistent_def processHandle_def)

lemma startStep_manager: "fst (snd (startStep os m tr)) = fst (snd (Start os m tr))"
  by (simp add: startStep_def split: prod.splits option.splits)

lemma Restart_manager:
  assumes "beforeStart os m tr = (e, m1, tr1)"
  shows "fst (snd (Restart os m tr)) = (if e = None then fst (snd (Start os m1 tr1)) else m1)"
  using assms by (cases e) (simp_all add: Restart_def startStep_manager)

lemma Restart_consistent:
  assumes "consistent m" shows "consistent (fst (snd (Restart os m tr)))"
proof -
  obtain e m1 tr1 where b: "beforeStart os m tr = (e, m1, tr1)"
    using prod_cases3 by blast
  from beforeStart_manager [OF b] have "consistent m1 = consistent (fst (snd (Stop os m tr)))"
    by (intro consistent_cong) simp_all
  with assms have c1: "consistent m1" by (simp add: Stop_consistent)
  then show ?thesis
    by (simp add: Restart_manager [OF b] Start_consistent)
qed

lemma act_consistent: "consistent (fst c) \<Longrightarrow> consistent (fst (act os x c))"
  by (cases c; cases x)
    (simp_all add: Start_consistent Stop_consistent Restart_consistent reaper_consistent,
      simp add: consistent_def processHandle_def SetDelays_def)

lemma fold_act_consistent: "consistent (fst c) \<Longrightarrow> consistent (fst (fold (act os) acts c))"
  by (induction acts arbitrary: c) (simp_all add: act_consistent)

lemma NewManager_consistent: "consistent (NewManager a)"
  by (simp add: consistent_def NewManager_def processHandle_def)

lemma history_consistent: "consistent (fst (history os a acts))"
  unfolding history_def by (rule fold_act_consistent) (simp add: NewManager_consistent)

lemma card_tracked: "card (tracked m) \<le> 1"
  by (cases "processHandle m") (simp_all add: tracked_def)

lemma Start_running: "running m \<Longrightarrow> Start os m tr = (Some AlreadyRunning, m, tr)"
  by (simp add: Start_def)

lemma Start_nothing_to_run:
  "\<not> running m \<Longrightarrow> Bin (app m) = [] \<Longrightarrow> RunCmd (app m) = [] \<Longrightarrow> Start os m tr = (None, m, tr)"
  by (simp add: Start_def)

lemmas example_defs = exampleApp_def exampleOS_def NewManager_def Fields_def isSpace_def
  envEntries_def

lemma ex_start: "Start exampleOS (NewManager exampleApp) [] =
   (None, (NewManager exampleApp)\<lparr>cmd := Some \<lparr> CmdArgs = [''/tmp/api-server'', ''-v''], CmdDir = ''.'',
        CmdEnv = [''PORT=8080''], Setpgid = True, Process = Some 1 \<rparr>, running := True\<rparr>,
    [Spawned [''/tmp/api-server'', ''-v''] 1])"
  by (simp add: Start_def example_defs)

lemma exampleRunning_simps:
  "running exampleRunning" "processHandle exampleRunning = Some 1"
  "app exampleRunning = exampleApp"
  by (simp_all add: exampleRunning_def ex_start processHandle_def) (simp add: NewManager_def)

lemma exampleBuilding_simps:
  "\<not> StopOnError (app (exampleBuilding rerun))"
  "stopAndPreCommands exampleOS (exampleBuilding rerun) [] = (None, exampleBuilding rerun, [])"
  "buildCmdOf (app (exampleBuilding rerun)) = ''false''"
  "runCommand exampleOS (exampleBuilding rerun) ''false'' [] =
     (Some (CommandFailed ''exit status 1''), [Executed [''false''] [''PORT=8080'']])"
  "Rerun (app (exampleBuilding rerun)) = rerun"
  "RerunDelay (app (exampleBuilding rerun)) * Millisecond = 500000000"
  "0 <s RerunDelay (app (exampleBuilding rerun))"
  by (simp_all add: exampleBuilding_def example_defs stopAndPreCommands_def Stop_def
      buildCmdOf_def runCommand_def Millisecond_def word_sless_alt)

text \<open>
  C1. A manager tracks at most one process as running. After any history of calls of
  \<open>Start\<close>, \<open>Stop\<close> and \<open>Restart\<close>, with the reapers of earlier starts taking
  the mutex at any point in between: at most one process is tracked, the flag being
  set exactly when the handle holds a started process; \<open>Start\<close> on a set flag fails
  with \<open>AlreadyRunning\<close> and changes nothing; \<open>Stop\<close> returns no error and leaves
  the flag clear and the handle without a process, so that nothing is tracked any
  more. The statement is about what the manager tracks, the flag and the handle; it
  does not count the processes of the operating system.
\<close>

theorem C1_single_tracked_process:
  fixes os a acts tr
  defines "m \<equiv> fst (history os a acts)"
  defines "m' \<equiv> fst (snd (Stop os m tr))"
  shows "card (tracked m) \<le> 1
         \<and> running m = (processHandle m \<noteq> None)
         \<and> (running m \<longrightarrow> Start os m tr = (Some AlreadyRunning, m, tr))
         \<and> fst (Stop os m tr) = None \<and> \<not> running m' \<and> processHandle m' = None
         \<and> tracked m' = {}"
proof -
  have c: "consistent m"
    unfolding m_def by (rule history_consistent)
  obtain e tr' where s: "Stop os m tr = (e, m', tr')"
    unfolding m'_def by (metis prod.collapse)
  have t: "tracked m' = {}"
    using Stop_stopped [OF c s] by (simp add: tracked_def)
  from Stop_stopped [OF c s] Stop_result [OF s] t card_tracked [of m] c show ?thesis
    by (simp add: Start_running s consistent_def)
qed

theorem C1_single_tracked_process_witness:
  "running (fst (history exampleOS exampleApp [CallStart]))
   \<and> Start exampleOS (fst (history exampleOS exampleApp [CallStart])) [] =
       (Some AlreadyRunning, fst (history exampleOS exampleApp [CallStart]), [])
   \<and> tracked (fst (history exampleOS exampleApp [CallStart])) = {1}
   \<and> tracked (fst (snd (Stop exampleOS (fst (history exampleOS exampleApp [CallStart])) []))) = {}"
proof -
  have r: "running (fst (history exampleOS exampleApp [CallStart]))"
    by (simp add: history_def ex_start)
  have t: "tracked (fst (history exampleOS exampleApp [CallStart])) = {1}"
    by (simp add: history_def ex_start tracked_def processHandle_def)
  show ?thesis
    using r t C1_single_tracked_process [of exampleOS exampleApp "[CallStart]" "[]"]
    by simp
qed

text \<open>
  A reaper that gets the mutex late. The process of the first start is stopped, and a
  second process is started before the reaper of the first has taken the mutex. The
  reaper then clears the flag and the handle of the second process: \<open>Stop\<close> finds
  nothing to stop, and the next \<open>Start\<close> launches a third process, the second never
  having been signalled.
\<close>

theorem late_reaper_loses_track:
  "snd (history exampleOS exampleApp [CallStart, CallStop, CallStart, ReaperExit, CallStop, CallStart]) =
     [Spawned [''/tmp/api-server'', ''-v''] 1,
      KilledGroup 1 SIGTERM, KilledGroup 1 SIGKILL, Waited 1,
      Spawned [''/tmp/api-server'', ''-v''] 5,
      Spawned [''/tmp/api-server'', ''-v''] 6]
   \<and> tracked (fst (history exampleOS exampleApp [CallStart, CallStop, CallStart])) = {5}
   \<and> tracked (fst (history exampleOS exampleApp [CallStart, CallStop, CallStart, ReaperExit])) = {}
   \<and> tracked (fst (history exampleOS exampleApp
         [CallStart, CallStop, CallStart, ReaperExit, CallStop, CallStart])) = {6}"
  by (simp add: history_def Start_def Stop_def reaper_def tracked_def processHandle_def
      sendSignal_def example_defs)

text \<open>
  C3. \<open>Stop\<close> never returns an error. When no process is tracked (the flag is clear or
  the handle holds no process) it returns at once and changes nothing. When a process
  is tracked it signals it, waits, kills it if it has not left in time, and returns
  with the flag clear and the handle absent, whatever the operating system answered.
\<close>

theorem C3_Stop_never_fails:
  fixes os m tr pid
  defines "tr1 \<equiv> sendSignal os pid (if SendInterrupt (app m) then SIGINT else SIGTERM) tr"
  shows "fst (Stop os m tr) = None
         \<and> (\<not> running m \<or> processHandle m = None \<longrightarrow> Stop os m tr = (None, m, tr))
         \<and> (running m \<and> processHandle m = Some pid \<longrightarrow>
              Stop os m tr =
                (None, m\<lparr>running := False, cmd := None\<rparr>,
                 (if ExitsInTime os tr1 pid then tr1 else sendSignal os pid SIGKILL tr1) @ [Waited pid])
              \<and> \<not> running (fst (snd (Stop os m tr)))
              \<and> processHandle (fst (snd (Stop os m tr))) = None)"
  unfolding tr1_def
  by (simp add: Stop_def Let_def processHandle_def split: option.splits)

theorem C3_Stop_never_fails_witness:
  "Stop exampleOS (NewManager exampleApp) [] = (None, NewManager exampleApp, [])
   \<and> running exampleRunning \<and> processHandle exampleRunning = Some 1
   \<and> Stop exampleOS exampleRunning [] =
       (None, exampleRunning\<lparr>running := False, cmd := None\<rparr>,
        [KilledGroup 1 SIGTERM, KilledGroup 1 SIGKILL, Waited 1])"
proof -
  have n: "\<not> running (NewManager exampleApp)"
    by (simp add: NewManager_def)
  have s: "sendSignal exampleOS pid sig tr = tr @ [KilledGroup pid sig]" for pid sig tr
    by (simp add: sendSignal_def exampleOS_def)
  have e: "\<not> ExitsInTime exampleOS tr 1" "\<not> SendInterrupt exampleApp" for tr
    by (simp_all add: exampleOS_def exampleApp_def)
  show ?thesis
    using n exampleRunning_simps e
      C3_Stop_never_fails [of exampleOS "NewManager exampleApp" "[]"]
      C3_Stop_never_fails [of exampleOS exampleRunning "[]" 1]
    by (simp add: s)
qed

lemma act_idle:
  assumes "Bin a = []" "RunCmd a = []" "app (fst c) = a" "\<not> running (fst c)"
  shows "app (fst (act os x c)) = a \<and> \<not> running (fst (act os x c))"
proof (cases c)
  case (Pair m tr)
  with assms have m: "app m = a" "\<not> running m" by simp_all
  have stop: "Stop os m tr = (None, m, tr)" using m by (simp add: Stop_def)
  show ?thesis
  proof (cases x)
    case CallStart
    then show ?thesis using Pair m assms by (simp add: Start_nothing_to_run)
  next
    case CallStop
    then show ?thesis using Pair m stop by simp
  next
    case CallRestart
    obtain e m1 tr1 where b: "beforeStart os m tr = (e, m1, tr1)"
      using prod_cases3 by blast
    from beforeStart_manager [OF b] stop m have m1: "app m1 = a" "\<not> running m1" by simp_all
    then have "Start os m1 tr1 = (None, m1, tr1)"
      using assms by (simp add: Start_nothing_to_run)
    then show ?thesis
      using CallRestart Pair m1 by (simp add: Restart_manager [OF b])
  next
    case (CallSetDelays stopD startD)
    then show ?thesis using Pair m by (simp add: SetDelays_def)
  next
    case ReaperExit
    then show ?thesis using Pair m by (simp add: reaper_def)
  qed
qed

lemma fold_act_idle:
  assumes "Bin a = []" "RunCmd a = []"
  shows "app (fst c) = a \<Longrightarrow> \<not> running (fst c)
         \<Longrightarrow> app (fst (fold (act os) acts c)) = a \<and> \<not> running (fst (fold (act os) acts c))"
proof (induction acts arbitrary: c)
  case Nil
  then show ?case by simp
next
  case (Cons x xs)
  from act_idle [OF assms Cons.prems, of os x] show ?case
    by (simp add: Cons.IH)
qed

text \<open>
  C10. For an application with neither \<open>Bin\<close> nor \<open>RunCmd\<close>, after any history of
  the manager: \<open>Start\<close> returns no error, launches nothing (the effects are as
  before) and leaves the manager as it was, and \<open>IsRunning\<close> is false before and
  after.
\<close>

theorem C10_Start_without_run_command:
  assumes "Bin a = []" and "RunCmd a = []"
  shows "Start os (fst (history os a acts)) tr = (None, fst (history os a acts), tr)
         \<and> \<not> IsRunning (fst (history os a acts))
         \<and> \<not> IsRunning (fst (snd (Start os (fst (history os a acts)) tr)))"
proof -
  have "app (fst (history os a acts)) = a \<and> \<not> running (fst (history os a acts))"
    unfolding history_def by (rule fold_act_idle [OF assms]) (simp_all add: NewManager_def)
  then show ?thesis
    using assms by (simp add: Start_nothing_to_run IsRunning_def)
qed

theorem C10_Start_without_run_command_witness:
  "Bin (exampleApp\<lparr>RunCmd := []\<rparr>) = [] \<and> RunCmd (exampleApp\<lparr>RunCmd := []\<rparr>) = []
   \<and> Start exampleOS (fst (history exampleOS (exampleApp\<lparr>RunCmd := []\<rparr>) [CallRestart, CallStop])) []
       = (None, fst (history exampleOS (exampleApp\<lparr>RunCmd := []\<rparr>) [CallRestart, CallStop]), [])
   \<and> \<not> IsRunning (fst (history exampleOS (exampleApp\<lparr>RunCmd := []\<rparr>) [CallRestart, CallStop]))"
proof -
  have h: "Bin (exampleApp\<lparr>RunCmd := []\<rparr>) = []" "RunCmd (exampleApp\<lparr>RunCmd := []\<rparr>) = []"
    by (simp_all add: exampleApp_def)
  show ?thesis
    using h C10_Start_without_run_command [OF h, of exampleOS "[CallRestart, CallStop]" "[]"]
    by simp
qed

lemma runCommand_extends: "\<exists>rest. snd (runCommand os m c tr) = tr @ rest"
  by (simp add: runCommand_def Let_def split: option.splits)

lemma runCommands_extends: "\<exists>rest. snd (runCommands os m wrap cs tr) = tr @ rest"
proof (induction cs arbitrary: tr)
  case Nil
  then show ?case by simp
next
  case (Cons c cs)
  obtain e tr1 where r: "runCommand os m c tr = (e, tr1)"
    by (cases "runCommand os m c tr")
  from runCommand_extends [of os m c tr] r obtain r1 where tr1: "tr1 = tr @ r1"
    by auto
  from Cons.IH [of tr1] obtain r2 where "snd (runCommands os m wrap cs tr1) = tr1 @ r2"
    by blast
  then show ?case
    using r tr1 by (cases e) auto
qed

lemma runCommands_continue:
  "\<not> StopOnError (app m) \<Longrightarrow> fst (runCommands os m wrap cs tr) = None"
  by (induction cs arbitrary: tr) (auto split: prod.splits option.splits)

lemma postCommandsAndDelay_continue:
  assumes "\<not> StopOnError (app m)"
  shows "\<exists>rest. postCommandsAndDelay os m tr = (None, m, tr @ rest)"
proof -
  obtain e tr1 where r: "runCommands os m PostCommandFailed (PostCmd (app m)) tr = (e, tr1)"
    by (cases "runCommands os m PostCommandFailed (PostCmd (app m)) tr")
  from runCommands_continue [OF assms, of os PostCommandFailed "PostCmd (app m)" tr] r
  have e: "e = None" by simp
  from runCommands_extends [of os m PostCommandFailed "PostCmd (app m)" tr] r
  obtain r1 where "tr1 = tr @ r1" by auto
  then show ?thesis
    using r e by (simp add: postCommandsAndDelay_def sleepIfPositive_def)
qed

lemma stopAndPreCommands_continue:
  assumes "\<not> StopOnError (app m)" and "stopAndPreCommands os m tr = (e, m1, tr1)"
  shows "e = None \<and> app m1 = app m"
proof -
  have m1: "m1 = fst (snd (Stop os m tr))"
    using assms(2) by (rule stopAndPreCommands_manager)
  then have a: "app m1 = app m" by (simp add: Stop_app)
  have "\<exists>tr0. runCommands os m1 PreCommandFailed (PreCmd (app m1)) tr0 = (e, tr1)"
    using assms(2) by (auto simp add: stopAndPreCommands_def Let_def split: prod.splits)
  then obtain tr0 where "runCommands os m1 PreCommandFailed (PreCmd (app m1)) tr0 = (e, tr1)"
    by blast
  with runCommands_continue [of m1 os PreCommandFailed "PreCmd (app m1)" tr0] assms(1) a
  show ?thesis by simp
qed

text \<open>
  C2. \<open>StopOnError\<close> is off and the build command fails, in the state the stop and
  the pre-commands have left. If \<open>Rerun\<close> is off, \<open>Restart\<close> returns the build's
  error from before the start step, with nothing done after the build command. If
  \<open>Rerun\<close> is on, \<open>Restart\<close> sleeps \<open>RerunDelay\<close> milliseconds right after
  the build command (when the delay is positive), goes through the post-commands and
  the start delay without an error, and ends with the start step.
\<close>

theorem C2_failing_build:
  assumes "\<not> StopOnError (app m)"
      and "stopAndPreCommands os m tr = (e0, m1, tr1)"
      and "runCommand os m1 (buildCmdOf (app m)) tr1 = (Some err, tr2)"
  shows "(\<not> Rerun (app m) \<longrightarrow>
            beforeStart os m tr = (Some err, m1, tr2) \<and> Restart os m tr = (Some err, m1, tr2))
         \<and> (Rerun (app m) \<longrightarrow>
              (\<exists>rest tr3.
                 tr3 = tr2 @ (if 0 <s RerunDelay (app m)
                              then [Slept (RerunDelay (app m) * Millisecond)] else []) @ rest
                 \<and> beforeStart os m tr = (None, trackBin m1, tr3)
                 \<and> Restart os m tr = startStep os (trackBin m1) tr3))"
proof -
  from stopAndPreCommands_continue [OF assms(1,2)] have e0: "e0 = None" and a: "app m1 = app m"
    by simp_all
  have cmd: "buildCmdOf (app m) \<noteq> []"
    using assms(3) by (auto simp add: runCommand_def)
  show ?thesis
  proof (cases "Rerun (app m)")
    case False
    then have "buildStep os m1 tr1 = (Some err, m1, tr2)"
      using assms a cmd by (simp add: buildStep_def)
    then have "beforeStart os m tr = (Some err, m1, tr2)"
      using assms(2) e0 by (simp add: beforeStart_def)
    then show ?thesis
      using False by (simp add: Restart_def)
  next
    case True
    define tr2' where "tr2' = sleepIfPositive (RerunDelay (app m)) (RerunDelay (app m) * Millisecond) tr2"
    have b: "buildStep os m1 tr1 = (None, trackBin m1, tr2')"
      using assms a cmd True by (simp add: buildStep_def tr2'_def)
    have "\<not> StopOnError (app (trackBin m1))"
      using assms(1) a by simp
    from postCommandsAndDelay_continue [OF this, of os tr2']
    obtain rest where p: "postCommandsAndDelay os (trackBin m1) tr2' = (None, trackBin m1, tr2' @ rest)"
      by blast
    have bs: "beforeStart os m tr = (None, trackBin m1, tr2' @ rest)"
      using assms(2) e0 b p by (simp add: beforeStart_def)
    then have "Restart os m tr = startStep os (trackBin m1) (tr2' @ rest)"
      by (simp add: Restart_def)
    with bs True show ?thesis
      by (auto simp add: tr2'_def sleepIfPositive_def)
  qed
qed

theorem C2_failing_build_witness:
  "\<not> StopOnError (app (exampleBuilding False))
   \<and> stopAndPreCommands exampleOS (exampleBuilding False) [] = (None, exampleBuilding False, [])
   \<and> runCommand exampleOS (exampleBuilding False) (buildCmdOf (app (exampleBuilding False))) [] =
        (Some (CommandFailed ''exit status 1''), [Executed [''false''] [''PORT=8080'']])
   \<and> Restart exampleOS (exampleBuilding False) [] =
        (Some (CommandFailed ''exit status 1''), exampleBuilding False,
         [Executed [''false''] [''PORT=8080'']])
   \<and> (\<exists>rest. Restart exampleOS (exampleBuilding True) [] =
         startStep exampleOS (trackBin (exampleBuilding True))
           ([Executed [''false''] [''PORT=8080''], Slept 500000000] @ rest))"
  using C2_failing_build [of "exampleBuilding False" exampleOS "[]" None "exampleBuilding False" "[]"
      "CommandFailed ''exit status 1''" "[Executed [''false''] [''PORT=8080'']]"]
    C2_failing_build [of "exampleBuilding True" exampleOS "[]" None "exampleBuilding True" "[]"
      "CommandFailed ''exit status 1''" "[Executed [''false''] [''PORT=8080'']]"]
  by (auto simp add: exampleBuilding_simps)

section \<open>Properties of the orchestrator and the session workspace\<close>

lemma map_of_storeApp: "map_of (storeApp k v ps) = (map_of ps)(k \<mapsto> v)"
  by (induction ps) (auto simp add: fun_eq_iff)

lemma storeApp_not_Nil: "storeApp k v ps \<noteq> []"
  by (cases ps) simp_all

lemma selectNamed_missing:
  "find (\<lambda>n. map_of (Apps (config r)) n = None) names = Some n
   \<Longrightarrow> selectNamed r names acc = Inl (AppNotFound n)"
  by (induction names arbitrary: acc) (auto split: option.splits if_splits)

lemma selectNamed_found:
  "find (\<lambda>n. map_of (Apps (config r)) n = None) names = None
   \<Longrightarrow> \<exists>sel. selectNamed r names acc = Inr sel
         \<and> (names \<noteq> [] \<longrightarrow> sel \<noteq> [])
         \<and> (\<forall>k. map_of sel k =
               (if k \<in> set names then map_option (translatePaths r) (map_of (Apps (config r)) k)
                else map_of acc k))"
proof (induction names arbitrary: acc)
  case Nil
  then show ?case by simp
next
  case (Cons name names)
  from Cons.prems obtain a where a: "map_of (Apps (config r)) name = Some a"
    by (auto split: if_splits)
  from Cons.prems have rest: "find (\<lambda>n. map_of (Apps (config r)) n = None) names = None"
    by (auto split: if_splits)
  from Cons.IH [OF rest, of "storeApp name (translatePaths r a) acc"]
  obtain sel where sel: "selectNamed r names (storeApp name (translatePaths r a) acc) = Inr sel"
    and ne: "names \<noteq> [] \<longrightarrow> sel \<noteq> []"
    and look: "\<forall>k. map_of sel k =
               (if k \<in> set names then map_option (translatePaths r) (map_of (Apps (config r)) k)
                else map_of (storeApp name (translatePaths r a) acc) k)"
    by blast
  have "sel \<noteq> []"
  proof (cases names)
    case Nil
    then show ?thesis using sel storeApp_not_Nil [of name "translatePaths r a" acc] by auto
  next
    case (Cons x xs)
    then show ?thesis using ne by simp
  qed
  moreover have "\<forall>k. map_of sel k =
      (if k \<in> set (name # names) then map_option (translatePaths r) (map_of (Apps (config r)) k)
       else map_of acc k)"
    using look a by (auto simp add: map_of_storeApp)
  ultimately show ?case
    using sel a by simp
qed

lemma map_of_selectAll:
  "map_of (selectAll r) k = map_option (translatePaths r) (map_of (Apps (config r)) k)"
proof -
  have "map_of (map (\<lambda>p. (fst p, f (snd p))) ps) k = map_option f (map_of ps k)" for f and ps :: "(string \<times> App) list"
    by (induction ps) auto
  then show ?thesis by (simp add: selectAll_def)
qed

lemma exampleSession_dir: "GenerateSessionDir exampleSession = Inr ''/tmp/wisp/0a1b2c3d''"
  by (simp add: GenerateSessionDir_def generateSessionID_def exampleSession_def hexByte_def
      hexDigit_def Join_def HasSuffix_def)

text \<open>
  C7, amended. \<open>Run\<close> first creates the session directory and fails with that error
  if it cannot. Once the directory exists: with names given, \<open>Run\<close> fails with
  \<open>AppNotFound\<close> for the first name that is not in the configuration, before any
  application is started; with no names it selects every configured application; with
  names that all exist it selects exactly those; each selected application has its
  paths translated. It fails with \<open>NoApplications\<close> exactly when no names are given
  and the configuration is empty, the only way for the selection to be empty.
\<close>

theorem C7_Run_selection:
  fixes env r names
  defines "missing \<equiv> find (\<lambda>n. map_of (Apps (config r)) n = None) names"
  shows "(GenerateSessionDir env = Inl e \<longrightarrow> selectApps env r names = (Inl (SessionDirFailed e), r))
    \<and> (GenerateSessionDir env = Inr dir \<longrightarrow>
         (missing = Some n \<longrightarrow>
            selectApps env r names = (Inl (AppNotFound n), r\<lparr>sessionDir := dir\<rparr>))
       \<and> (names = [] \<longrightarrow>
            selectApps env r names =
              (if Apps (config r) = [] then Inl NoApplications
               else Inr (selectAll (r\<lparr>sessionDir := dir\<rparr>)), r\<lparr>sessionDir := dir\<rparr>)
            \<and> (\<forall>k. map_of (selectAll (r\<lparr>sessionDir := dir\<rparr>)) k =
                   map_option (translatePaths (r\<lparr>sessionDir := dir\<rparr>)) (map_of (Apps (config r)) k)))
       \<and> (names \<noteq> [] \<and> missing = None \<longrightarrow>
            (\<exists>sel. selectApps env r names = (Inr sel, r\<lparr>sessionDir := dir\<rparr>) \<and> sel \<noteq> []
               \<and> (\<forall>k. map_of sel k =
                     (if k \<in> set names
                      then map_option (translatePaths (r\<lparr>sessionDir := dir\<rparr>)) (map_of (Apps (config r)) k)
                      else None))))
       \<and> (fst (selectApps env r names) = Inl NoApplications
            \<longleftrightarrow> names = [] \<and> Apps (config r) = []))"
proof -
  let ?r1 = "r\<lparr>sessionDir := dir\<rparr>"
  have cfg: "Apps (config ?r1) = Apps (config r)"
    by simp
  have fail: "GenerateSessionDir env = Inl e \<Longrightarrow> selectApps env r names = (Inl (SessionDirFailed e), r)"
    by (simp add: selectApps_def Let_def)
  have miss: "selectApps env r names = (Inl (AppNotFound n), ?r1)"
    if "GenerateSessionDir env = Inr dir" "missing = Some n"
  proof -
    from that(2) have ne: "names \<noteq> []"
      by (auto simp add: missing_def)
    from that(2) have "selectNamed ?r1 names [] = Inl (AppNotFound n)"
      unfolding missing_def by (intro selectNamed_missing) simp
    then show ?thesis
      using that(1) ne by (simp add: selectApps_def Let_def)
  qed
  have all: "selectApps env r names =
              (if Apps (config r) = [] then Inl NoApplications else Inr (selectAll ?r1), ?r1)"
    if "GenerateSessionDir env = Inr dir" "names = []"
    using that by (simp add: selectApps_def Let_def) (simp add: selectAll_def)
  have named: "\<exists>sel. selectApps env r names = (Inr sel, ?r1) \<and> sel \<noteq> []
               \<and> (\<forall>k. map_of sel k =
                     (if k \<in> set names
                      then map_option (translatePaths ?r1) (map_of (Apps (config r)) k) else None))"
    if "GenerateSessionDir env = Inr dir" "names \<noteq> []" "missing = None"
  proof -
    have "find (\<lambda>n. map_of (Apps (config ?r1)) n = None) names = None"
      using that(3) by (simp add: missing_def)
    from selectNamed_found [OF this, of "[]"] that(2)
    obtain sel where "selectNamed ?r1 names [] = Inr sel" "sel \<noteq> []"
      "\<forall>k. map_of sel k =
         (if k \<in> set names then map_option (translatePaths ?r1) (map_of (Apps (config r)) k)
          else None)"
      by auto
    then show ?thesis
      using that(1,2) by (simp add: selectApps_def Let_def)
  qed
  have none: "fst (selectApps env r names) = Inl NoApplications \<longleftrightarrow> names = [] \<and> Apps (config r) = []"
    if g: "GenerateSessionDir env = Inr dir"
  proof (cases "names = []")
    case True
    then show ?thesis using all [OF g True] by simp
  next
    case False
    show ?thesis
    proof (cases missing)
      case None
      with named [OF g False] False show ?thesis by auto
    next
      case (Some x)
      have "selectNamed ?r1 names [] = Inl (AppNotFound x)"
        using Some unfolding missing_def by (intro selectNamed_missing) simp
      then show ?thesis
        using g False by (simp add: selectApps_def Let_def)
    qed
  qed
  show ?thesis
    using fail miss all named none by (simp add: map_of_selectAll)
qed

theorem C7_Run_selection_witness:
  "GenerateSessionDir exampleSession = Inr ''/tmp/wisp/0a1b2c3d''
   \<and> find (\<lambda>n. map_of (Apps (config exampleRunner)) n = None) [''api'', ''worker'', ''web'']
       = Some ''worker''
   \<and> selectApps exampleSession exampleRunner [''api'', ''worker'', ''web''] =
       (Inl (AppNotFound ''worker''), exampleRunner\<lparr>sessionDir := ''/tmp/wisp/0a1b2c3d''\<rparr>)
   \<and> selectApps exampleSession exampleRunner [] =
       (Inr (selectAll (exampleRunner\<lparr>sessionDir := ''/tmp/wisp/0a1b2c3d''\<rparr>)),
        exampleRunner\<lparr>sessionDir := ''/tmp/wisp/0a1b2c3d''\<rparr>)"
proof -
  have f: "find (\<lambda>n. map_of (Apps (config exampleRunner)) n = None) [''api'', ''worker'', ''web'']
       = Some ''worker''"
    by (simp add: exampleRunner_def)
  have a: "Apps (config exampleRunner) \<noteq> []"
    by (simp add: exampleRunner_def)
  show ?thesis
    using exampleSession_dir f a
      C7_Run_selection [where env = exampleSession and dir = "''/tmp/wisp/0a1b2c3d''"
        and r = exampleRunner and names = "[''api'', ''worker'', ''web'']" and n = "''worker''"]
      C7_Run_selection [where env = exampleSession and dir = "''/tmp/wisp/0a1b2c3d''"
        and r = exampleRunner and names = "[]"]
    by simp
qed

lemma brokenSession_dir:
  "GenerateSessionDir brokenSession = Inl (MkdirFailed ''/tmp/wisp/0a1b2c3d'')"
  by (simp add: GenerateSessionDir_def generateSessionID_def exampleSession_def hexByte_def
      hexDigit_def Join_def HasSuffix_def brokenSession_def)

text \<open>
  C7 as first stated fails when the session directory cannot be created: \<open>Run\<close> with
  an unknown name, or with an empty configuration, then returns the error of the session
  directory.
\<close>

theorem C7_session_failure_counterexample:
  "map_of (Apps (config exampleRunner)) ''worker'' = None
   \<and> fst (selectApps brokenSession exampleRunner [''worker''])
       = Inl (SessionDirFailed (MkdirFailed ''/tmp/wisp/0a1b2c3d''))
   \<and> fst (selectApps brokenSession exampleRunner [''worker'']) \<noteq> Inl (AppNotFound ''worker'')
   \<and> Apps (config \<lparr> config = \<lparr>Apps = []\<rparr>, sessionDir = [] \<rparr>) = []
   \<and> fst (selectApps brokenSession \<lparr> config = \<lparr>Apps = []\<rparr>, sessionDir = [] \<rparr> [])
       \<noteq> Inl NoApplications"
  by (simp add: selectApps_def Let_def brokenSession_dir exampleRunner_def)

text \<open>
  C8. \<open>translatePaths\<close> never changes \<open>RunCmd\<close> or \<open>Args\<close>. For an application
  built with \<open>go build -o ./tmp/api ./cmd/api\<close> and run with \<open>./tmp/api\<close>, the
  build command is rewritten to write into the session directory while the run command
  still names \<open>./tmp/api\<close>.
\<close>

theorem C8_run_command_not_translated:
  "RunCmd (translatePaths r a) = RunCmd a
   \<and> Args (translatePaths r a) = Args a
   \<and> BuildCmd (translatePaths (exampleRunner\<lparr>sessionDir := ''/tmp/wisp/0a1b2c3d''\<rparr>)
         (exampleApp\<lparr>BuildCmd := ''go build -o ./tmp/api ./cmd/api'', RunCmd := ''./tmp/api''\<rparr>))
       = ''go build -o /tmp/wisp/0a1b2c3d/api ./cmd/api''
   \<and> RunCmd (translatePaths (exampleRunner\<lparr>sessionDir := ''/tmp/wisp/0a1b2c3d''\<rparr>)
         (exampleApp\<lparr>BuildCmd := ''go build -o ./tmp/api ./cmd/api'', RunCmd := ''./tmp/api''\<rparr>))
       = ''./tmp/api''"
proof -
  have general: "RunCmd (translatePaths r' a') = RunCmd a' \<and> Args (translatePaths r' a') = Args a'"
    for r' a'
    by (simp add: translatePaths_def Let_def)
  have "BuildCmd (translatePaths (exampleRunner\<lparr>sessionDir := ''/tmp/wisp/0a1b2c3d''\<rparr>)
         (exampleApp\<lparr>BuildCmd := ''go build -o ./tmp/api ./cmd/api'', RunCmd := ''./tmp/api''\<rparr>))
       = ''go build -o /tmp/wisp/0a1b2c3d/api ./cmd/api''"
    by (simp add: translatePaths_def Let_def exampleApp_def exampleRunner_def HasPrefix_def
        ReplaceAll_def)
  with general show ?thesis
    by (simp add: exampleApp_def)
qed

section \<open>Properties of the watcher\<close>

lemma shouldIgnore_followSymlink [simp]:
  "shouldIgnore (w\<lparr>followSymlink := b\<rparr>) path = shouldIgnore w path"
  by (simp add: shouldIgnore_def)

lemma walk_followSymlink:
  "walk (w\<lparr>followSymlink := b\<rparr>) path node acc = walk w path node acc"
  "walk_names (w\<lparr>followSymlink := b\<rparr>) path entries acc = walk_names w path entries acc"
  by (induction w path node acc and w path entries acc rule: walk_walk_names.induct)
    (auto split: prod.splits walk_result.splits)

text \<open>
  C6. \<open>Watch\<close> gives the same result and registers the same directories whether
  \<open>SetFollowSymlink\<close> was called with true or with false: the flag is stored and
  never read. In the example tree the link \<open>assets\<close> is not registered although the
  flag is set.
\<close>

theorem C6_follow_symlink_has_no_effect:
  "fst (Watch (SetFollowSymlink True w) dir node) = fst (Watch (SetFollowSymlink False w) dir node)
   \<and> watcher (snd (Watch (SetFollowSymlink True w) dir node))
       = watcher (snd (Watch (SetFollowSymlink False w) dir node))
   \<and> watcher (snd (Watch (SetFollowSymlink True (New 300)) ''/srv/api'' exampleTree))
       = [''/srv/api'', ''/srv/api/cmd'']"
proof -
  have "Walk (w\<lparr>followSymlink := b\<rparr>) dir node acc = Walk w dir node acc" for b acc
    by (simp add: Walk_def walk_followSymlink)
  then have "fst (Watch (SetFollowSymlink b w) dir node) = fst (Watch w dir node)
     \<and> watcher (snd (Watch (SetFollowSymlink b w) dir node)) = watcher (snd (Watch w dir node))" for b
    by (simp add: Watch_def SetFollowSymlink_def split: prod.splits walk_result.splits)
  moreover have "watcher (snd (Watch (SetFollowSymlink True (New 300)) ''/srv/api'' exampleTree))
       = [''/srv/api'', ''/srv/api/cmd'']"
    by (simp add: Watch_def Walk_def SetFollowSymlink_def New_def exampleTree_def shouldIgnore_def
        Base_def isPathSeparator_def HasPrefix_def HasSuffix_def Join_def)
  ultimately show ?thesis
    by simp
qed

text \<open>
  C5, amended. A raw event is skipped exactly when it is a \<open>Chmod\<close>-only event, its
  base name ends in \<open>~\<close> or starts with \<open>.#\<close>, its extension is \<open>.swp\<close>,
  \<open>.swo\<close> or \<open>.swx\<close>, its path contains \<open>test.test\<close>, its base name matches a
  configured exclude file pattern, or its path matches a configured exclude expression.
  A skipped event leaves the loop's state as it was; any other event arms the debounce
  timer.
\<close>

theorem C5_event_filter:
  "(shouldSkipEvent env w event \<longleftrightarrow>
     (Op event = Chmod
      \<or> HasSuffix (Base (Name event)) ''~'' \<or> HasPrefix (Base (Name event)) ''.#''
      \<or> Ext (Name event) = ''.swp'' \<or> Ext (Name event) = ''.swo'' \<or> Ext (Name event) = ''.swx''
      \<or> Contains (Name event) ''test.test''
      \<or> (\<exists>excluded \<in> set (excludeFiles w). Match env excluded (Base (Name event)))
      \<or> (\<exists>re \<in> set (excludeRegex w). re (Name event))))
   \<and> (if shouldSkipEvent env (self s) event
        then onEvent env now event s = s
        else timerActive (onEvent env now event s)
             \<and> timer (onEvent env now event s) =
                 Some \<lparr>deadline = now + debounceTime (self s), armed = True\<rparr>)"
  by (auto simp add: shouldSkipEvent_def Let_def list_ex_iff onEvent_def arm_timer_def
      stop_timer_def)

text \<open>
  C5 as first stated, without the \<open>test.test\<close> rule, fails: a write to
  \<open>/srv/api/pkg/test.test\<close>, with no exclude rule configured, meets none of the
  other conditions and is skipped.
\<close>

theorem C5_test_binary_counterexample:
  "shouldSkipEvent exampleEnv (New 300) \<lparr>Name = ''/srv/api/pkg/test.test'', Op = Write\<rparr>
   \<and> Op \<lparr>Name = ''/srv/api/pkg/test.test'', Op = Write\<rparr> \<noteq> Chmod
   \<and> \<not> HasSuffix (Base ''/srv/api/pkg/test.test'') ''~''
   \<and> \<not> HasPrefix (Base ''/srv/api/pkg/test.test'') ''.#''
   \<and> Ext ''/srv/api/pkg/test.test'' \<noteq> ''.swp''
   \<and> Ext ''/srv/api/pkg/test.test'' \<noteq> ''.swo''
   \<and> Ext ''/srv/api/pkg/test.test'' \<noteq> ''.swx''
   \<and> excludeFiles (New 300) = []
   \<and> excludeRegex (New 300) = []"
  by (simp add: shouldSkipEvent_def Let_def New_def Write_def Chmod_def HasPrefix_def HasSuffix_def
      Base_def Ext_def isPathSeparator_def exampleEnv_def)

text \<open>
  C9. A raw event whose full path contains \<open>test.test\<close> is skipped whatever the
  operation, the environment and the configured exclude rules are. The loop then leaves
  its state as it was: no timer is stopped or armed, so the event causes no signal.
\<close>

theorem C9_test_test_skipped:
  assumes "Contains (Name event) ''test.test''"
  shows "shouldSkipEvent env w event
         \<and> onEvent env now event s = s
         \<and> step env (now, RawEvent event) s = elapse now s"
proof -
  have skip: "shouldSkipEvent env w' event" for w'
    using assms by (simp add: shouldSkipEvent_def Let_def)
  have "onEvent env now event s' = s'" for s'
    by (simp add: onEvent_def skip)
  then show ?thesis
    by (simp add: skip step_def Let_def)
qed

theorem C9_test_test_skipped_witness:
  "Contains (Name \<lparr>Name = ''/src/pkg/test.test'', Op = Write\<rparr>) ''test.test''
   \<and> shouldSkipEvent exampleEnv
        (New 300) \<lparr>Name = ''/src/pkg/test.test'', Op = Write\<rparr>
   \<and> onEvent exampleEnv 0
        \<lparr>Name = ''/src/pkg/test.test'', Op = Write\<rparr> (run_init (New 300)) = run_init (New 300)"
proof -
  have c: "Contains (Name \<lparr>Name = ''/src/pkg/test.test'', Op = Write\<rparr>) ''test.test''"
    by (simp add: HasPrefix_def)
  show ?thesis
    using c C9_test_test_skipped [OF c, of
        "exampleEnv"
        "New 300" 0 "run_init (New 300)"]
    by simp
qed

lemma shouldSkipEvent_rules:
  "excludeFiles w' = excludeFiles w \<Longrightarrow> excludeRegex w' = excludeRegex w
   \<Longrightarrow> shouldSkipEvent env w' event = shouldSkipEvent env w event"
  by (simp add: shouldSkipEvent_def)

lemma qualifies_self:
  "same_rules w s \<Longrightarrow> qualifies env w event \<Longrightarrow> \<not> shouldSkipEvent env (self s) event"
  using shouldSkipEvent_rules [of "self s" w env event] by (simp add: same_rules_def qualifies_def)

lemma run_init_idle: "idle w (run_init w)"
  by (simp add: idle_def same_rules_def run_init_def)

lemma elapse_idle: "idle w s \<Longrightarrow> elapse now s = s"
  by (auto simp add: idle_def same_rules_def elapse_def split: option.splits)

lemma elapse_early: "armed_at w t s \<Longrightarrow> now < t + debounceTime w \<Longrightarrow> elapse now s = s"
  by (simp add: armed_at_def same_rules_def elapse_def)

lemma onEvent_arms:
  assumes "same_rules w s" and "qualifies env w event"
    and "case timer s of None \<Rightarrow> True | Some t \<Rightarrow> timerActive s \<or> \<not> armed t"
  shows "armed_at w now (onEvent env now event s)
         \<and> signals (onEvent env now event s) = signals s
         \<and> dropped (onEvent env now event s) = dropped s
         \<and> Events (self (onEvent env now event s)) = Events (self s)"
proof -
  have skip: "\<not> shouldSkipEvent env (self s) event"
    using assms(1,2) by (rule qualifies_self)
  show ?thesis
    using assms(1,3) skip
    by (auto simp add: onEvent_def Let_def arm_timer_def stop_timer_def armed_at_def
        same_rules_def split: option.splits)
qed

lemma step_event_idle:
  assumes "idle w s" and "qualifies env w event"
  shows "armed_at w now (step env (now, RawEvent event) s)
         \<and> signals (step env (now, RawEvent event) s) = signals s
         \<and> dropped (step env (now, RawEvent event) s) = dropped s
         \<and> Events (self (step env (now, RawEvent event) s)) = Events (self s)"
proof -
  have s: "step env (now, RawEvent event) s = onEvent env now event s"
    using assms(1) by (simp add: step_def elapse_idle [OF assms(1)] idle_def same_rules_def)
  have "case timer s of None \<Rightarrow> True | Some t \<Rightarrow> timerActive s \<or> \<not> armed t"
    using assms(1) by (simp add: idle_def split: option.splits)
  with onEvent_arms [of w s env event now] assms show ?thesis
    by (simp add: s idle_def)
qed

lemma step_event_early:
  assumes "armed_at w t s" and "qualifies env w event" and "now < t + debounceTime w"
  shows "armed_at w now (step env (now, RawEvent event) s)
         \<and> signals (step env (now, RawEvent event) s) = signals s
         \<and> dropped (step env (now, RawEvent event) s) = dropped s
         \<and> Events (self (step env (now, RawEvent event) s)) = Events (self s)"
proof -
  have s: "step env (now, RawEvent event) s = onEvent env now event s"
    using assms(1) by (simp add: step_def elapse_early [OF assms(1,3)] armed_at_def same_rules_def)
  have "case timer s of None \<Rightarrow> True | Some t \<Rightarrow> timerActive s \<or> \<not> armed t"
    using assms(1) by (simp add: armed_at_def)
  with onEvent_arms [of w s env event now] assms show ?thesis
    by (simp add: s armed_at_def)
qed

text \<open>The state after the armed timer of \<open>t\<close> has fired.\<close>

lemma elapse_late:
  assumes "armed_at w t s" and "t + debounceTime w \<le> now"
  shows "idle w (elapse now s)
         \<and> signals (elapse now s) = signals s @ (if Events (self s) = 0 then [t + debounceTime w] else [])
         \<and> dropped (elapse now s) = dropped s @ (if Events (self s) = 0 then [] else [t + debounceTime w])
         \<and> Events (self (elapse now s)) = (if Events (self s) = 0 then 1 else Events (self s))"
  using assms
  by (simp add: armed_at_def same_rules_def elapse_def fire_current_def emit_def idle_def)

lemma quiesce_armed:
  assumes "armed_at w t s"
  shows "signals (quiesce s) = signals s @ (if Events (self s) = 0 then [t + debounceTime w] else [])
         \<and> dropped (quiesce s) = dropped s @ (if Events (self s) = 0 then [] else [t + debounceTime w])"
  using assms
  by (simp add: armed_at_def same_rules_def quiesce_def fire_current_def emit_def)

lemma quiesce_idle: "idle w s \<Longrightarrow> quiesce s = s"
  by (auto simp add: idle_def same_rules_def quiesce_def split: option.splits)

lemma step_event_late:
  assumes "armed_at w t s" and "qualifies env w event" and "t + debounceTime w \<le> now"
  shows "armed_at w now (step env (now, RawEvent event) s)
         \<and> signals (step env (now, RawEvent event) s) =
             signals s @ (if Events (self s) = 0 then [t + debounceTime w] else [])
         \<and> dropped (step env (now, RawEvent event) s) =
             dropped s @ (if Events (self s) = 0 then [] else [t + debounceTime w])
         \<and> Events (self (step env (now, RawEvent event) s)) =
             (if Events (self s) = 0 then 1 else Events (self s))"
proof -
  note e = elapse_late [OF assms(1,3)]
  then have i: "idle w (elapse now s)" by simp
  have "step env (now, RawEvent event) s = step env (now, RawEvent event) (elapse now s)"
    by (simp add: step_def elapse_idle [OF i])
  with step_event_idle [OF i assms(2), of now] e show ?thesis
    by simp
qed

lemma step_receive_late:
  assumes "armed_at w t s" and "t + debounceTime w \<le> now" and "Events (self s) = 0"
  shows "idle w (step env (now, Receive) s)
         \<and> signals (step env (now, Receive) s) = signals s @ [t + debounceTime w]
         \<and> dropped (step env (now, Receive) s) = dropped s
         \<and> Events (self (step env (now, Receive) s)) = 0"
  using elapse_late [OF assms(1,2)] assms(3)
  by (simp add: step_def receive_def idle_def same_rules_def Let_def)


lemma run_within_window:
  assumes "armed_at w t s"
    and "within_window (debounceTime w) (t # map fst evs)"
    and "list_all (\<lambda>x. qualifies env w (snd x)) evs"
  shows "armed_at w (last (t # map fst evs)) (run env (raw evs) s)
         \<and> signals (run env (raw evs) s) = signals s
         \<and> dropped (run env (raw evs) s) = dropped s
         \<and> Events (self (run env (raw evs) s)) = Events (self s)"
  using assms
proof (induction evs arbitrary: t s)
  case Nil
  then show ?case by (simp add: raw_def)
next
  case (Cons x evs)
  let ?s1 = "step env (fst x, RawEvent (snd x)) s"
  from Cons.prems have x: "fst x < t + debounceTime w" "qualifies env w (snd x)"
    and rest: "within_window (debounceTime w) (fst x # map fst evs)"
      "list_all (\<lambda>x. qualifies env w (snd x)) evs"
    by simp_all
  note st = step_event_early [OF Cons.prems(1) x(2,1)]
  then have a: "armed_at w (fst x) ?s1" by simp
  from Cons.IH [OF a rest] st show ?case
    by (simp add: raw_def)
qed

lemma run_spaced_apart:
  assumes "armed_at w t s"
    and "spaced_apart (debounceTime w) (t # map fst evs)"
    and "list_all (\<lambda>x. qualifies env w (snd x)) evs"
    and "Events (self s) \<le> 1"
  shows "signals (quiesce (run env (raw evs) s)) =
           signals s @ (if Events (self s) = 0 then [t + debounceTime w] else [])
         \<and> dropped (quiesce (run env (raw evs) s)) =
           dropped s @ (if Events (self s) = 0 then [] else [t + debounceTime w])
             @ map (\<lambda>x. fst x + debounceTime w) evs"
  using assms
proof (induction evs arbitrary: t s)
  case Nil
  then show ?case using quiesce_armed [of w t s] by (simp add: raw_def)
next
  case (Cons x evs)
  let ?s1 = "step env (fst x, RawEvent (snd x)) s"
  from Cons.prems have x: "t + debounceTime w \<le> fst x" "qualifies env w (snd x)"
    and rest: "spaced_apart (debounceTime w) (fst x # map fst evs)"
      "list_all (\<lambda>x. qualifies env w (snd x)) evs"
    by simp_all
  note st = step_event_late [OF Cons.prems(1) x(2,1)]
  then have a: "armed_at w (fst x) ?s1" and e: "Events (self ?s1) = 1"
    using Cons.prems(4) by auto
  from Cons.IH [OF a rest] e st show ?case
    by (simp add: raw_def)
qed

lemma run_drained:
  assumes "idle w s"
    and "drained (debounceTime w) evs"
    and "list_all (\<lambda>x. qualifies env w (fst (snd x))) evs"
    and "Events (self s) = 0"
  shows "idle w (run env (served evs) s)
         \<and> signals (run env (served evs) s) = signals s @ map (\<lambda>x. fst x + debounceTime w) evs
         \<and> dropped (run env (served evs) s) = dropped s
         \<and> Events (self (run env (served evs) s)) = 0"
  using assms
proof (induction evs arbitrary: s)
  case Nil
  then show ?case by (simp add: served_def)
next
  case (Cons x evs)
  let ?s1 = "step env (fst x, RawEvent (fst (snd x))) s"
  let ?s2 = "step env (snd (snd x), Receive) ?s1"
  from Cons.prems have x: "fst x + debounceTime w \<le> snd (snd x)" "qualifies env w (fst (snd x))"
    and rest: "drained (debounceTime w) evs" "list_all (\<lambda>x. qualifies env w (fst (snd x))) evs"
    by (cases evs; simp)+
  note st1 = step_event_idle [OF Cons.prems(1) x(2), of "fst x"]
  then have a: "armed_at w (fst x) ?s1" and e: "Events (self ?s1) = 0"
    using Cons.prems(4) by simp_all
  note st2 = step_receive_late [OF a x(1) e, of env]
  then have i: "idle w ?s2" and e2: "Events (self ?s2) = 0"
    by simp_all
  from Cons.IH [OF i rest e2] st1 st2 show ?case
    by (simp add: served_def)
qed

lemma burst_first:
  assumes "Events w = 0" and "qualifies env w (snd x)"
  shows "armed_at w (fst x) (step env (fst x, RawEvent (snd x)) (run_init w))
         \<and> signals (step env (fst x, RawEvent (snd x)) (run_init w)) = []
         \<and> dropped (step env (fst x, RawEvent (snd x)) (run_init w)) = []
         \<and> Events (self (step env (fst x, RawEvent (snd x)) (run_init w))) = 0"
  using step_event_idle [OF run_init_idle assms(2), of "fst x"] assms(1)
  by (simp add: run_init_def)

lemma burst_within_window:
  assumes "Events w = 0" and "evs \<noteq> []"
    and "list_all (\<lambda>x. qualifies env w (snd x)) evs"
    and "within_window (debounceTime w) (map fst evs)"
  shows "signals (quiesce (run env (raw evs) (run_init w))) = [fst (last evs) + debounceTime w]
         \<and> dropped (quiesce (run env (raw evs) (run_init w))) = []"
proof -
  from assms(2) obtain x xs where evs: "evs = x # xs"
    by (cases evs) auto
  let ?s1 = "step env (fst x, RawEvent (snd x)) (run_init w)"
  from assms(3) evs have q: "qualifies env w (snd x)" "list_all (\<lambda>x. qualifies env w (snd x)) xs"
    by simp_all
  note f = burst_first [OF assms(1) q(1)]
  then have a: "armed_at w (fst x) ?s1" by simp
  from assms(4) evs have ww: "within_window (debounceTime w) (fst x # map fst xs)"
    by simp
  note r = run_within_window [OF a ww q(2)]
  then have "armed_at w (last (fst x # map fst xs)) (run env (raw xs) ?s1)"
    by simp
  from quiesce_armed [OF this] r f
  have "signals (quiesce (run env (raw xs) ?s1)) = [last (fst x # map fst xs) + debounceTime w]
        \<and> dropped (quiesce (run env (raw xs) ?s1)) = []"
    by simp
  moreover have "last (fst x # map fst xs) = fst (last evs)"
    using evs by (simp add: last_map)
  ultimately show ?thesis
    using evs by (simp add: raw_def)
qed

lemma burst_spaced_apart:
  assumes "Events w = 0" and "evs \<noteq> []"
    and "list_all (\<lambda>x. qualifies env w (snd x)) evs"
    and "spaced_apart (debounceTime w) (map fst evs)"
  shows "signals (quiesce (run env (raw evs) (run_init w))) = [fst (hd evs) + debounceTime w]
         \<and> dropped (quiesce (run env (raw evs) (run_init w))) =
             map (\<lambda>x. fst x + debounceTime w) (tl evs)"
proof -
  from assms(2) obtain x xs where evs: "evs = x # xs"
    by (cases evs) auto
  let ?s1 = "step env (fst x, RawEvent (snd x)) (run_init w)"
  from assms(3) evs have q: "qualifies env w (snd x)" "list_all (\<lambda>x. qualifies env w (snd x)) xs"
    by simp_all
  note f = burst_first [OF assms(1) q(1)]
  then have a: "armed_at w (fst x) ?s1" and e: "Events (self ?s1) \<le> 1"
    by simp_all
  from assms(4) evs have sp: "spaced_apart (debounceTime w) (fst x # map fst xs)"
    by simp
  from run_spaced_apart [OF a sp q(2) e] f show ?thesis
    using evs by (simp add: raw_def)
qed

lemma burst_drained:
  assumes "Events w = 0"
    and "list_all (\<lambda>x. qualifies env w (fst (snd x))) evs"
    and "drained (debounceTime w) evs"
  shows "signals (quiesce (run env (served evs) (run_init w))) =
           map (\<lambda>x. fst x + debounceTime w) evs
         \<and> dropped (quiesce (run env (served evs) (run_init w))) = []"
proof -
  have e: "Events (self (run_init w)) = 0"
    using assms(1) by (simp add: run_init_def)
  note r = run_drained [OF run_init_idle assms(3,2) e]
  then have "idle w (run env (served evs) (run_init w))"
    by simp
  from quiesce_idle [OF this] r show ?thesis
    by (simp add: run_init_def)
qed

lemma exampleEvent_qualifies: "qualifies exampleEnv (New 300) exampleEvent"
  by (simp add: qualifies_def shouldSkipEvent_def Let_def New_def Write_def Chmod_def HasPrefix_def
      HasSuffix_def Base_def Ext_def isPathSeparator_def exampleEnv_def exampleEvent_def)

lemma New_simps: "Events (New d) = 0" "debounceTime (New d) = d"
  by (simp_all add: New_def)

text \<open>
  C4, amended. A fresh watcher receives a burst of \<open>N \<ge> 1\<close> qualifying events.
  If each event arrives less than the debounce window after the one before, exactly one
  signal is emitted, one window after the last event, and none is dropped. If each
  arrives more than the window after the one before, the timer fires once per event,
  each firing emitting a signal only if \<open>Events\<close> is empty: with nothing received
  the first signal is emitted and the other \<open>N - 1\<close> are dropped; with the consumer
  receiving after each firing and before the next event, all \<open>N\<close> are emitted.
\<close>

theorem C4_debounce_coalescing:
  assumes "Events w = 0" and "evs \<noteq> []"
    and "list_all (\<lambda>x. qualifies env w (snd x)) evs"
  shows "(within_window (debounceTime w) (map fst evs) \<longrightarrow>
            signals (quiesce (run env (raw evs) (run_init w))) = [fst (last evs) + debounceTime w]
            \<and> dropped (quiesce (run env (raw evs) (run_init w))) = [])
       \<and> (spaced_apart (debounceTime w) (map fst evs) \<longrightarrow>
            signals (quiesce (run env (raw evs) (run_init w))) = [fst (hd evs) + debounceTime w]
            \<and> dropped (quiesce (run env (raw evs) (run_init w))) =
                 map (\<lambda>x. fst x + debounceTime w) (tl evs))
       \<and> (list_all (\<lambda>x. qualifies env w (fst (snd x))) devs \<and> drained (debounceTime w) devs \<longrightarrow>
            signals (quiesce (run env (served devs) (run_init w))) =
              map (\<lambda>x. fst x + debounceTime w) devs
            \<and> dropped (quiesce (run env (served devs) (run_init w))) = [])"
  using burst_within_window [OF assms] burst_spaced_apart [OF assms]
    burst_drained [OF assms(1), of env devs]
  by blast

theorem C4_debounce_coalescing_witness:
  "Events (New 300) = 0
   \<and> list_all (\<lambda>x. qualifies exampleEnv (New 300) (snd x))
        [(0, exampleEvent), (100, exampleEvent), (350, exampleEvent)]
   \<and> within_window (debounceTime (New 300))
        (map fst [(0, exampleEvent), (100, exampleEvent), (350, exampleEvent)])
   \<and> signals (quiesce (run exampleEnv (raw [(0, exampleEvent), (100, exampleEvent), (350, exampleEvent)])
        (run_init (New 300)))) = [650]
   \<and> drained (debounceTime (New 300))
        [(0, exampleEvent, 300), (1000, exampleEvent, 1500), (2000, exampleEvent, 2400)]
   \<and> signals (quiesce (run exampleEnv
        (served [(0, exampleEvent, 300), (1000, exampleEvent, 1500), (2000, exampleEvent, 2400)])
        (run_init (New 300)))) = [300, 1300, 2300]
   \<and> spaced_apart (debounceTime (New 300))
        (map fst [(0, exampleEvent), (1000, exampleEvent), (2000, exampleEvent)])
   \<and> dropped (quiesce (run exampleEnv
        (raw [(0, exampleEvent), (1000, exampleEvent), (2000, exampleEvent)])
        (run_init (New 300)))) = [1300, 2300]"
  using C4_debounce_coalescing [of "New 300"
      "[(0, exampleEvent), (100, exampleEvent), (350, exampleEvent)]" exampleEnv
      "[(0, exampleEvent, 300), (1000, exampleEvent, 1500), (2000, exampleEvent, 2400)]"]
    C4_debounce_coalescing [of "New 300"
      "[(0, exampleEvent), (1000, exampleEvent), (2000, exampleEvent)]" exampleEnv "[]"]
  by (simp add: New_simps exampleEvent_qualifies)

text \<open>
  C4 as first stated fails when nothing is received in between: two events a thousand
  time units apart, with a window of three hundred, emit one signal; the second is
  dropped.
\<close>

theorem C4_undrained_counterexample:
  "spaced_apart (debounceTime (New 300)) (map fst [(0, exampleEvent), (1000, exampleEvent)])
   \<and> qualifies exampleEnv (New 300) exampleEvent
   \<and> length [(0 :: int, exampleEvent), (1000, exampleEvent)] = 2
   \<and> signals (quiesce (run exampleEnv (raw [(0, exampleEvent), (1000, exampleEvent)])
        (run_init (New 300)))) = [300]
   \<and> dropped (quiesce (run exampleEnv (raw [(0, exampleEvent), (1000, exampleEvent)])
        (run_init (New 300)))) = [1300]"
  using burst_spaced_apart [of "New 300" "[(0, exampleEvent), (1000, exampleEvent)]" exampleEnv]
  by (simp add: New_simps exampleEvent_qualifies)

end
